theory Spec2Isabelle
  imports Main
begin

section \<open>JavaScript values\<close>

text \<open>
  An optional JavaScript value: \<open>undefined\<close>, \<open>null\<close> or a proper value.  The two
  empty values are kept apart because a default parameter (\<open>tag = DEFAULT_TAG\<close>)
  replaces \<open>undefined\<close> only, while \<open>otp != null\<close> rejects both.
\<close>

datatype 'a js = Undefined | Null | Val 'a

text \<open>A default parameter or destructuring default \<open>x = d\<close>.\<close>

fun default_to :: "'a js \<Rightarrow> 'a js \<Rightarrow> 'a js" where
  "default_to d Undefined = d"
| "default_to d Null = Null"
| "default_to d (Val v) = Val v"

text \<open>Truthiness of an optional string: the empty string is falsy.\<close>

fun truthy :: "string js \<Rightarrow> bool" where
  "truthy (Val s) = (s \<noteq> [])"
| "truthy Undefined = False"
| "truthy Null = False"

text \<open>\<open>x != null\<close> (loose inequality: false for \<open>undefined\<close> as well).\<close>

fun not_nullish :: "'a js \<Rightarrow> bool" where
  "not_nullish (Val v) = True"
| "not_nullish Undefined = False"
| "not_nullish Null = False"

text \<open>Interpolation \<open>${x}\<close> of an optional string in a template literal.\<close>

fun interp :: "string js \<Rightarrow> string" where
  "interp (Val s) = s"
| "interp Undefined = ''undefined''"
| "interp Null = ''null''"

text \<open>The value a promise resolves to, as far as the pipeline looks at it.\<close>

datatype js_value = V_undefined | V_null | V_bool bool | V_string string

fun truthy_value :: "js_value \<Rightarrow> bool" where
  "truthy_value V_undefined = False"
| "truthy_value V_null = False"
| "truthy_value (V_bool b) = b"
| "truthy_value (V_string s) = (s \<noteq> [])"

fun to_value :: "string js \<Rightarrow> js_value" where
  "to_value Undefined = V_undefined"
| "to_value Null = V_null"
| "to_value (Val s) = V_string s"

text \<open>A value read where a string is expected.\<close>

fun as_string :: "js_value \<Rightarrow> string js" where
  "as_string V_undefined = Undefined"
| "as_string V_null = Null"
| "as_string (V_bool b) = Val (if b then ''true'' else ''false'')"
| "as_string (V_string s) = Val s"

text \<open>\<open>s.startsWith(p)\<close>\<close>

fun startsWith :: "string \<Rightarrow> string \<Rightarrow> bool" where
  "startsWith s [] = True"
| "startsWith [] (p # ps) = False"
| "startsWith (c # cs) (p # ps) = (c = p \<and> startsWith cs ps)"

text \<open>\<open>/p/.test(s)\<close> for a pattern \<open>p\<close> without metacharacters: \<open>p\<close> occurs in \<open>s\<close>.\<close>

fun regex_test :: "string \<Rightarrow> string \<Rightarrow> bool" where
  "regex_test p [] = (p = [])"
| "regex_test p (c # cs) = (startsWith (c # cs) p \<or> regex_test p cs)"

section \<open>Errors (lib/errors.js)\<close>

text \<open>
  The classes of lib/errors.js.  All of them extend \<open>ReleaseItError\<close>, which extends
  \<open>Error\<close> and adds nothing but the stack trace.
\<close>

datatype error_class =
    ReleaseItError | GitCommitError | GitHubClientError | InvalidVersionError
  | FileNotFoundError | DistRepoStageDirError | GitRepoError | GitRemoteUrlError
  | GitCleanWorkingDirError | GitUpstreamError | TokenError | npmTimeoutError | npmAuthError

text \<open>
  A thrown value: an instance of one of the classes above with its message, or any other
  error, with its \<open>name\<close> and its message.
\<close>

datatype js_error = Known error_class string | Foreign string string

fun instanceof_ReleaseItError :: "js_error \<Rightarrow> bool" where
  "instanceof_ReleaseItError (Known c m) = True"
| "instanceof_ReleaseItError (Foreign n m) = False"

fun message :: "js_error \<Rightarrow> string" where
  "message (Known c m) = m"
| "message (Foreign n m) = m"

text \<open>
  \<open>String(err)\<close>, that is \<open>Error.prototype.toString\<close>: the name and the message,
  joined by a colon when both are there.  No class of lib/errors.js sets a name of its
  own, so all of them are named \<open>Error\<close>.
\<close>

definition error_toString :: "string \<Rightarrow> string \<Rightarrow> string" where
  "error_toString n m = (if m = [] then n else if n = [] then m else n @ '': '' @ m)"

fun toString :: "js_error \<Rightarrow> string" where
  "toString (Known c m) = error_toString ''Error'' m"
| "toString (Foreign n m) = error_toString n m"

text \<open>\<open>`${n}`\<close> for a non-negative integer.\<close>

definition digit :: "nat \<Rightarrow> char" where
  "digit n = ''0123456789'' ! n"

function decimal :: "nat \<Rightarrow> string" where
  "decimal n = (if n < 10 then [digit n] else decimal (n div 10) @ [digit (n mod 10)])"
  by pat_completeness auto
termination
  by (relation "measure id") auto

declare decimal.simps [simp del]

definition EOL :: string where
  "EOL = [CHR 0x0A]"

text \<open>\<open>s.toLowerCase()\<close>, on ASCII.\<close>

definition toLowerCase :: "string \<Rightarrow> string" where
  "toLowerCase s =
     map (\<lambda>c. case map_of (zip ''ABCDEFGHIJKLMNOPQRSTUVWXYZ'' ''abcdefghijklmnopqrstuvwxyz'') c of
                 None \<Rightarrow> c | Some l \<Rightarrow> l) s"

definition new_InvalidVersionError :: js_error where
  "new_InvalidVersionError = Known InvalidVersionError ''An invalid version was provided.''"

definition new_GitCleanWorkingDirError :: js_error where
  "new_GitCleanWorkingDirError = Known GitCleanWorkingDirError
     (''Working dir must be clean.'' @ EOL @ ''Please stage and commit your changes.'' @ EOL @
      ''Alternatively, use `--no-git.requireCleanWorkingDir` to include the changes in the release commit'' @
      '' (or save `'' @ [CHR 0x22] @ ''git.requireCleanWorkingDir'' @ [CHR 0x22] @
      '': false` in the configuration).'')"

definition new_TokenError :: "string \<Rightarrow> string \<Rightarrow> js_error" where
  "new_TokenError type tokenRef = Known TokenError
     (''Environment variable '' @ [CHR 0x22] @ tokenRef @ [CHR 0x22] @ '' is required for '' @ type @
      '' releases.'' @ EOL @
      ''Documentation: https://github.com/webpro/release-it#'' @ toLowerCase type @ ''-releases'')"

definition new_npmTimeoutError :: "nat \<Rightarrow> js_error" where
  "new_npmTimeoutError timeout =
     Known npmTimeoutError (''Unable to reach npm registry (timed out after '' @ decimal timeout @ ''ms).'')"

definition new_npmAuthError :: js_error where
  "new_npmAuthError = Known npmAuthError ''Not authenticated with npm. Please `npm login` and try again.''"

section \<open>The world the pipeline acts on\<close>

text \<open>The two targets of a run: the primary repository and the distribution repository.\<close>

datatype target = Primary | Distribution

text \<open>
  What a run does to the outside, in the order it does it: shell commands, log lines and
  the calls of the collaborators.
\<close>

text \<open>
  The methods of the collaborators that lib/tasks.js calls and that are defined outside
  the files at hand: the git clients, the GitHub and GitLab clients, the version
  resolver, the changelog generator, the shell and the distribution helpers.
\<close>

datatype call =
    HandleDeprecated
  | Git_validate | GitDist_validate | GitHub_validate | GitLab_validate
  | Version_setLatestVersion | Version_bump "string js" | Version_validate
  | Changelog_generate
  | Shell_bump
  | Git_stage | Git_stageDir | PrepareDistRepo
  | Git_status target | Git_commit target | Git_tag target | Git_push target
  | GitHub_getNotes target | GitHub_release target | GitHub_uploadAssets target
  | GitLab_getNotes target | GitLab_release target
  | Shell_pushd string | Shell_popd
  | GitDist_init | GitDist_handleTagOptions | GetDistRepoClients

datatype event =
    Shell_run string
  | Run_template "string js"
  | Call call
  | Prompt "string js"
  | Log_log string
  | Log_warn string
  | Log_error string
  | Log_preview string js_value
  | Console_error js_error
  | Debug js_error
  | Set_runtime_details "string js" "string js" bool
  | Set_runtime_changelog js_value
  | Process_on string
  | Metrics_event string
  | Metrics_exception js_error

text \<open>
  The state a run changes: what it did so far, the flags the clients own, the directory
  stack of the shell (its head is the current working directory) and the two versions
  the version resolver holds.
\<close>

record world =
  events :: "event list"
  isPublished :: "target \<Rightarrow> bool"
  github_isReleased :: "target \<Rightarrow> bool"
  gitlab_isReleased :: "target \<Rightarrow> bool"
  dirs :: "string list"
  v_latestVersion :: "string js"
  v_version :: "string js"

text \<open>
  What the code is given and does not define.  Every outcome may depend on everything
  done so far.
  \<^item> \<open>shell_result\<close>: the outcome of \<open>shell.run(command)\<close> (\<open>None\<close>: the promise resolves);
  \<^item> \<open>template_result\<close>: the same for \<open>shell.runTemplateCommand(command)\<close>;
  \<^item> \<open>call_outcome\<close>: what a method of a collaborator throws or returns;
  \<^item> \<open>user_answer\<close>: what the user answers to a prompt (\<open>None\<close>: the step is declined);
  \<^item> \<open>prerelease\<close>: the semver package's function of that name, which returns the
    prerelease components of a version, or \<open>null\<close>;
  \<^item> \<open>version_isRecommendation\<close> and \<open>version_isPreRelease\<close>: the version resolver's reading of an
    increment and of a version;
  \<^item> \<open>getReleaseUrl_github\<close>, \<open>getReleaseUrl_gitlab\<close>: the accessors of the release clients;
  \<^item> \<open>uptime\<close>: \<open>Math.floor(process.uptime())\<close>.
\<close>

record env =
  shell_result :: "string \<Rightarrow> event list \<Rightarrow> js_error option"
  template_result :: "string js \<Rightarrow> event list \<Rightarrow> js_error option"
  call_outcome :: "call \<Rightarrow> event list \<Rightarrow> js_error + js_value"
  user_answer :: "string js \<Rightarrow> event list \<Rightarrow> string js option"
  prerelease :: "string \<Rightarrow> string list option"
  version_isRecommendation :: "string js \<Rightarrow> bool"
  version_isPreRelease :: "string js \<Rightarrow> bool"
  getReleaseUrl_github :: "target \<Rightarrow> string"
  getReleaseUrl_gitlab :: "target \<Rightarrow> string"
  uptime :: "event list \<Rightarrow> nat"

section \<open>Promises\<close>

text \<open>
  An asynchronous action, run on a world: it rejects (\<open>Inl\<close>) or resolves (\<open>Inr\<close>),
  and leaves a world behind.  \<open>None\<close>: the action does not settle within the retries
  it is allowed (see \<open>publish\<close>).
\<close>

type_synonym 'a io = "world \<Rightarrow> ((js_error + 'a) \<times> world) option"

definition resolve :: "'a \<Rightarrow> 'a io" where
  "resolve a w = Some (Inr a, w)"

definition throw :: "js_error \<Rightarrow> 'a io" where
  "throw e w = Some (Inl e, w)"

text \<open>\<open>const x = await m; f(x)\<close>: a rejection of \<open>m\<close> skips \<open>f\<close>.\<close>

definition await :: "'a io \<Rightarrow> ('a \<Rightarrow> 'b io) \<Rightarrow> 'b io" where
  "await m f w =
     (case m w of
        None \<Rightarrow> None
      | Some (Inl e, w') \<Rightarrow> Some (Inl e, w')
      | Some (Inr a, w') \<Rightarrow> f a w')"

text \<open>\<open>m.catch(h)\<close>, and \<open>try { m } catch (err) { h(err) }\<close>.\<close>

definition catch :: "'a io \<Rightarrow> (js_error \<Rightarrow> 'a io) \<Rightarrow> 'a io" where
  "catch m h w =
     (case m w of
        None \<Rightarrow> None
      | Some (Inl e, w') \<Rightarrow> h e w'
      | Some (Inr a, w') \<Rightarrow> Some (Inr a, w'))"

definition emit :: "event \<Rightarrow> unit io" where
  "emit ev w = Some (Inr (), w\<lparr>events := events w @ [ev]\<rparr>)"

text \<open>An action that reads the state, and one that only changes it.\<close>

definition reading :: "(world \<Rightarrow> 'a io) \<Rightarrow> 'a io" where
  "reading f w = f w w"

definition update :: "(world \<Rightarrow> world) \<Rightarrow> unit io" where
  "update g w = Some (Inr (), g w)"

text \<open>\<open>c && m\<close> as a statement.\<close>

definition run_if :: "bool \<Rightarrow> unit io \<Rightarrow> unit io" where
  "run_if c m = (if c then m else resolve ())"

text \<open>\<open>shell.run(command)\<close>: the command is run, and the environment settles it.\<close>

definition shell_run :: "env \<Rightarrow> string \<Rightarrow> unit io" where
  "shell_run env command w =
     (let w' = w\<lparr>events := events w @ [Shell_run command]\<rparr> in
      case shell_result env command (events w) of
        None \<Rightarrow> Some (Inr (), w')
      | Some e \<Rightarrow> Some (Inl e, w'))"

definition log_warn :: "string \<Rightarrow> unit io" where
  "log_warn msg = emit (Log_warn msg)"

definition log_log :: "string \<Rightarrow> unit io" where
  "log_log msg = emit (Log_log msg)"

definition log_error :: "string \<Rightarrow> unit io" where
  "log_error msg = emit (Log_error msg)"

definition debug :: "js_error \<Rightarrow> unit io" where
  "debug err = emit (Debug err)"

section \<open>The npm client (lib/npm.js)\<close>

definition REGISTRY_TIMEOUT :: nat where
  "REGISTRY_TIMEOUT = 5000"

definition DEFAULT_TAG :: string where
  "DEFAULT_TAG = ''latest''"

definition NPM_BASE_URL :: string where
  "NPM_BASE_URL = ''https://www.npmjs.com/package/''"

text \<open>\<open>this.options\<close> of the client, and the client: its identity and its options.\<close>

record npm_options =
  npm_name :: string
  npm_publish :: bool
  npm_publishPath :: "string js"
  npm_access :: "string js"
  npm_private :: bool
  npm_tag :: "string js"
  npm_otp :: "string js"
  npm_isDryRun :: bool

record npm_client =
  npm_ref :: target
  npm_opts :: npm_options

text \<open>
  \<open>isRegistryUp\<close>: \<open>npm ping\<close> raced against \<open>rejectAfter(REGISTRY_TIMEOUT)\<close>; the
  registry is up when the ping resolves first.  A ping the environment settles with an
  error stands for one that is rejected or one that is slower than the deadline.
\<close>

definition isRegistryUp :: "env \<Rightarrow> bool io" where
  "isRegistryUp env = catch (await (shell_run env ''npm ping'') (\<lambda>_. resolve True)) (\<lambda>_. resolve False)"

definition isAuthenticated :: "env \<Rightarrow> bool io" where
  "isAuthenticated env = catch (await (shell_run env ''npm whoami'') (\<lambda>_. resolve True)) (\<lambda>_. resolve False)"

definition validate :: "env \<Rightarrow> npm_client \<Rightarrow> unit io" where
  "validate env this =
     (if \<not> npm_publish (npm_opts this) then resolve ()
      else await (isRegistryUp env) (\<lambda>up.
        if \<not> up then throw (new_npmTimeoutError REGISTRY_TIMEOUT)
        else await (isAuthenticated env) (\<lambda>auth.
          if \<not> auth then throw new_npmAuthError
          else resolve ())))"

definition getPackageUrl :: "npm_client \<Rightarrow> string" where
  "getPackageUrl this = NPM_BASE_URL @ npm_name (npm_opts this)"

text \<open>\<open>_.get(object, 0, defaultValue)\<close> on the result of \<open>semver.prerelease\<close>.\<close>

fun lodash_get0 :: "string list option \<Rightarrow> string js \<Rightarrow> string js" where
  "lodash_get0 None d = d"
| "lodash_get0 (Some []) d = d"
| "lodash_get0 (Some (c # cs)) d = Val c"

definition getTag :: "env \<Rightarrow> string js \<Rightarrow> string js \<Rightarrow> bool \<Rightarrow> string js" where
  "getTag env tag0 version isPreRelease =
     (let tag = default_to (Val DEFAULT_TAG) tag0 in
      if \<not> isPreRelease \<or> \<not> truthy version then tag
      else (let preReleaseComponents = prerelease env (interp version)
            in lodash_get0 preReleaseComponents tag))"

text \<open>The argument of \<open>publish\<close>; the callback is given the task that retries.\<close>

record publish_args =
  arg_tag :: "string js"
  arg_version :: "string js"
  arg_isPreRelease :: bool
  arg_otp :: "string js"
  arg_otpCallback :: "((string js \<Rightarrow> js_value io) \<Rightarrow> js_value io) option"

text \<open>The parameters of \<open>publish\<close> after their defaults \<open>this.options.tag\<close> and \<open>this.options.otp\<close>.\<close>

definition tag_param :: "npm_client \<Rightarrow> publish_args \<Rightarrow> string js" where
  "tag_param this args = default_to (npm_tag (npm_opts this)) (arg_tag args)"

definition otp_param :: "npm_client \<Rightarrow> publish_args \<Rightarrow> string js" where
  "otp_param this args = default_to (npm_otp (npm_opts this)) (arg_otp args)"

definition resolvedTag :: "env \<Rightarrow> npm_client \<Rightarrow> publish_args \<Rightarrow> string js" where
  "resolvedTag env this args =
     getTag env (tag_param this args) (arg_version args) (arg_isPreRelease args)"

text \<open>The command line of lines 53 to 58 and 64.\<close>

definition publish_command :: "env \<Rightarrow> npm_client \<Rightarrow> publish_args \<Rightarrow> string" where
  "publish_command env this args =
     (let opts = npm_opts this;
          publishPath = default_to (Val ''.'') (npm_publishPath opts);
          isScopedPkg = startsWith (npm_name opts) ''@'';
          accessArg = (if isScopedPkg \<and> truthy (npm_access opts)
                       then ''--access '' @ interp (npm_access opts) else '''');
          otpArg = (if truthy (otp_param this args)
                    then ''--otp '' @ interp (otp_param this args) else '''');
          dryRunArg = (if npm_isDryRun opts then ''--dry-run'' else '''')
      in ''npm publish '' @ interp publishPath @ '' --tag '' @ interp (resolvedTag env this args)
           @ '' '' @ accessArg @ '' '' @ otpArg @ '' '' @ dryRunArg)"

definition set_isPublished :: "npm_client \<Rightarrow> unit io" where
  "set_isPublished this = update (\<lambda>w. w\<lparr>isPublished := (isPublished w)(npm_ref this := True)\<rparr>)"

text \<open>The call \<open>this.publish({ tag, version, isPreRelease, otp, otpCallback })\<close> of line 75.\<close>

definition retry_args :: "npm_client \<Rightarrow> publish_args \<Rightarrow> string js \<Rightarrow> publish_args" where
  "retry_args this args otp =
     \<lparr>arg_tag = tag_param this args, arg_version = arg_version args,
      arg_isPreRelease = arg_isPreRelease args, arg_otp = otp,
      arg_otpCallback = arg_otpCallback args\<rparr>"

text \<open>
  The body of \<open>publish\<close>, with \<open>self\<close> for \<open>this.publish\<close> in the retry.
\<close>

definition publish_body ::
  "(publish_args \<Rightarrow> js_value io) \<Rightarrow> env \<Rightarrow> npm_client \<Rightarrow> publish_args \<Rightarrow> js_value io" where
  "publish_body self env this args =
     (if npm_private (npm_opts this) then
        await (log_warn ''Skip publish: package is private.'') (\<lambda>_. resolve V_undefined)
      else
        catch
          (await (shell_run env (publish_command env this args)) (\<lambda>_.
           await (set_isPublished this) (\<lambda>_. resolve V_undefined)))
          (\<lambda>err.
             await (debug err) (\<lambda>_.
             if regex_test ''one-time pass'' (toString err) then
               await (run_if (not_nullish (otp_param this args))
                        (log_warn ''The provided OTP is incorrect or has expired.'')) (\<lambda>_.
               case arg_otpCallback args of
                 Some otpCallback \<Rightarrow> otpCallback (\<lambda>otp. self (retry_args this args otp))
               | None \<Rightarrow> throw err)
             else throw err)))"

text \<open>
  \<open>publish\<close> calls itself from the callback, as often as the registry rejects the
  password and the callback runs the task: \<open>publish n\<close> is the method allowed \<open>n\<close>
  nested retries, and \<open>None\<close> when it would need more.
\<close>

primrec publish :: "nat \<Rightarrow> env \<Rightarrow> npm_client \<Rightarrow> publish_args \<Rightarrow> js_value io" where
  "publish 0 env this = publish_body (\<lambda>_ _. None) env this"
| "publish (Suc n) env this = publish_body (publish n env this) env this"

section \<open>The collaborators of the pipeline\<close>

text \<open>
  A method of a collaborator that is defined outside the files at hand: the call is
  recorded, and the environment says what it throws or returns.
\<close>

definition invoke :: "env \<Rightarrow> call \<Rightarrow> js_value io" where
  "invoke env c w =
     (let w' = w\<lparr>events := events w @ [Call c]\<rparr> in
      case call_outcome env c (events w) of
        Inl e \<Rightarrow> Some (Inl e, w')
      | Inr v \<Rightarrow> Some (Inr v, w'))"

text \<open>\<open>run\<close>, that is \<open>shell.runTemplateCommand\<close> bound to the shell (line 63).\<close>

definition run :: "env \<Rightarrow> string js \<Rightarrow> js_value io" where
  "run env command w =
     (let w' = w\<lparr>events := events w @ [Run_template command]\<rparr> in
      case template_result env command (events w) of
        None \<Rightarrow> Some (Inr V_undefined, w')
      | Some e \<Rightarrow> Some (Inl e, w'))"

text \<open>
  Modelled from the spec: \<open>Spinner.show\<close> of lib/spinner.js, which is not among the
  sources.  Section 4.2: in unattended mode the task is wrapped with a progress indicator,
  and when \<open>enabled\<close> is false the task is not invoked, forced or not; a skipped step
  is a no-op resolution.  The stub that stands for it in the tests of lib/tasks.js is
  \<open>({ enabled = true, task }) => (enabled ? task() : noop)\<close>.
\<close>

definition spinner_show :: "bool \<Rightarrow> js_value io \<Rightarrow> js_value io" where
  "spinner_show enabled task = (if enabled then task else resolve V_undefined)"

text \<open>
  The \<open>enabled\<close> of a lifecycle hook is its script: the default \<open>enabled = true\<close>
  stands in for \<open>undefined\<close>, and any other script is read for its truthiness.
\<close>

fun enabled_script :: "string js \<Rightarrow> bool" where
  "enabled_script Undefined = True"
| "enabled_script Null = False"
| "enabled_script (Val s) = (s \<noteq> [])"

text \<open>\<open>spinner.show({ enabled: script, task: () => run(script), label: script, forced: true })\<close>\<close>

definition hook :: "env \<Rightarrow> string js \<Rightarrow> js_value io" where
  "hook env script = spinner_show (enabled_script script) (run env script)"

text \<open>
  Modelled from the spec: \<open>Prompt.show\<close> of lib/prompt.js, which is not among the
  sources.  Section 4.2: in interactive mode a step that names a prompt asks the user
  before it runs its task, and a step the user declines is skipped without aborting the
  run; a skipped step is a no-op resolution.  Section 4.4: the prompt for the one-time
  password obtains it from the user, and the task is given what the user answered.
\<close>

definition prompt_show :: "env \<Rightarrow> bool \<Rightarrow> string js \<Rightarrow> (string js \<Rightarrow> js_value io) \<Rightarrow> js_value io" where
  "prompt_show env enabled prompt task =
     (if \<not> enabled then resolve V_undefined
      else await (emit (Prompt prompt)) (\<lambda>_. reading (\<lambda>w.
        case user_answer env prompt (events w) of
          None \<Rightarrow> resolve V_undefined
        | Some answer \<Rightarrow> task answer)))"

text \<open>\<open>step\<close> of line 136.\<close>

definition step :: "env \<Rightarrow> bool \<Rightarrow> bool \<Rightarrow> string js \<Rightarrow> js_value io \<Rightarrow> js_value io" where
  "step env isInteractive enabled prompt task =
     (if isInteractive then prompt_show env enabled prompt (\<lambda>_. task)
      else spinner_show enabled task)"

text \<open>
  Modelled from the spec: \<open>logPreview\<close> of lib/util.js, which is not among the sources.
  Section 4.3: the pending changeset and the release notes are previewed; the preview is
  a log line of its own kind.
\<close>

definition logPreview :: "string \<Rightarrow> js_value \<Rightarrow> unit io" where
  "logPreview kind text = emit (Log_preview kind text)"

text \<open>
  Modelled from the spec: \<open>Shell.pushd\<close> and \<open>Shell.popd\<close> of lib/shell.js, which is
  not among the sources.  Section 5: the current working directory is a single cursor;
  the distribution sub-release pushes into the staging directory and pops back to the
  original directory.
\<close>

definition shell_pushd :: "env \<Rightarrow> string \<Rightarrow> unit io" where
  "shell_pushd env dir =
     await (invoke env (Shell_pushd dir)) (\<lambda>_. update (\<lambda>w. w\<lparr>dirs := dir # dirs w\<rparr>))"

definition shell_popd :: "env \<Rightarrow> unit io" where
  "shell_popd env =
     await (invoke env Shell_popd) (\<lambda>_. update (\<lambda>w. w\<lparr>dirs := tl (dirs w)\<rparr>))"

text \<open>
  Modelled from the spec: \<open>release\<close> of the GitHub and GitLab clients (lib/github.js and
  lib/gitlab.js are not among the sources).  Section 3: each client owns an
  \<open>isReleased\<close> flag that is set once, on success.
\<close>

definition ghClient_release :: "env \<Rightarrow> target \<Rightarrow> js_value io" where
  "ghClient_release env t =
     await (invoke env (GitHub_release t)) (\<lambda>v.
     await (update (\<lambda>w. w\<lparr>github_isReleased := (github_isReleased w)(t := True)\<rparr>)) (\<lambda>_.
     resolve v))"

definition glClient_release :: "env \<Rightarrow> target \<Rightarrow> js_value io" where
  "glClient_release env t =
     await (invoke env (GitLab_release t)) (\<lambda>v.
     await (update (\<lambda>w. w\<lparr>gitlab_isReleased := (gitlab_isReleased w)(t := True)\<rparr>)) (\<lambda>_.
     resolve v))"

text \<open>
  Modelled from the spec: the version resolver of lib/version.js, which is not among the
  sources.  Section 4.1: \<open>setLatestVersion\<close> chooses the latest known version and
  \<open>bump\<close> computes the next one, or leaves it undetermined; \<open>details\<close> are
  the two versions and the pre-release flag.
\<close>

definition v_setLatestVersion :: "env \<Rightarrow> unit io" where
  "v_setLatestVersion env =
     await (invoke env Version_setLatestVersion) (\<lambda>v.
     update (\<lambda>w. w\<lparr>v_latestVersion := as_string v\<rparr>))"

definition v_bump :: "env \<Rightarrow> string js \<Rightarrow> js_value io" where
  "v_bump env increment =
     await (invoke env (Version_bump increment)) (\<lambda>v.
     await (update (\<lambda>w. w\<lparr>v_version := as_string v\<rparr>)) (\<lambda>_.
     resolve v))"

text \<open>\<open>config.setRuntimeOptions(v.details)\<close>\<close>

definition setRuntimeOptions_details :: "env \<Rightarrow> unit io" where
  "setRuntimeOptions_details env =
     reading (\<lambda>w. emit (Set_runtime_details (v_latestVersion w) (v_version w)
                               (version_isPreRelease env (v_version w))))"

section \<open>The pipeline (lib/tasks.js)\<close>

record git_options =
  git_commit :: bool
  git_tag :: bool
  git_push :: bool
  git_requireCleanWorkingDir :: bool

record github_options =
  github_release :: bool
  github_releaseNotes :: "string js"
  github_assets :: bool

record gitlab_options =
  gitlab_release :: bool
  gitlab_releaseNotes :: "string js"

text \<open>
  The argument of \<open>release\<close>: the clients of one target, with their options, and the
  script that runs after the release.
\<close>

record client_set =
  cs_target :: target
  cs_git :: git_options
  cs_github :: github_options
  cs_gitlab :: gitlab_options
  cs_npmClient :: npm_client
  cs_afterRelease :: "string js"

text \<open>
  The options of a run, as \<open>handleDeprecated\<close> returns them; \<open>config_dist_repo\<close> is
  \<open>config.options.dist.repo\<close>, read before.  The clients of the distribution repository
  are the ones \<open>getDistRepoClients\<close> and \<open>handleTagOptions\<close> derive.
\<close>

record options =
  opt_name :: string
  opt_isInteractive :: bool
  opt_increment :: "string js"
  opt_pkgFiles :: "string list js"
  opt_beforeStart :: "string js"
  opt_beforeBump :: "string js"
  opt_afterBump :: "string js"
  opt_beforeStage :: "string js"
  opt_config_dist_repo :: "string js"
  opt_dist_repo :: "string js"
  opt_dist_stageDir :: string
  opt_primary :: client_set
  opt_distribution :: client_set

text \<open>What \<open>release\<close> reads from the scope of \<open>runTasks\<close>.\<close>

record scope =
  sc_isInteractive :: bool
  sc_version :: "string js"
  sc_isPreRelease :: bool
  sc_changelog :: js_value

record pipeline_result =
  res_name :: string
  res_changelog :: js_value
  res_latestVersion :: "string js"
  res_version :: "string js"

definition rocket :: string where
  "rocket = [CHR 0xF0, CHR 0x9F, CHR 0x9A, CHR 0x80]"

definition link :: string where
  "link = [CHR 0xF0, CHR 0x9F, CHR 0x94, CHR 0x97]"

definition flag :: string where
  "flag = [CHR 0xF0, CHR 0x9F, CHR 0x8F, CHR 0x81]"

definition deprecation_warning :: string where
  "deprecation_warning =
     ''The '' @ [CHR 0x22] @ ''dist.repo'' @ [CHR 0x22] @
     '' option is deprecated. Please see https://github.com/webpro/release-it#distribution-repository for details more.''"

text \<open>\<open>dist.repo\<close> after lines 33 to 40.\<close>

definition dist_repo :: "options \<Rightarrow> string js" where
  "dist_repo opts =
     (if truthy (opt_config_dist_repo opts) then opt_config_dist_repo opts else opt_dist_repo opts)"

text \<open>Lines 33 to 42.  The metrics are a best-effort report (section 4.6): a line of the trace.\<close>

definition start :: "env \<Rightarrow> options \<Rightarrow> unit io" where
  "start env opts =
     await (emit (Call HandleDeprecated)) (\<lambda>_.
     await (run_if (truthy (opt_config_dist_repo opts)) (log_warn deprecation_warning)) (\<lambda>_.
     emit (Metrics_event ''start'')))"

text \<open>Lines 56 to 60.\<close>

definition validate_clients :: "env \<Rightarrow> options \<Rightarrow> unit io" where
  "validate_clients env opts =
     await (invoke env Git_validate) (\<lambda>_.
     await (invoke env GitDist_validate) (\<lambda>_.
     await (invoke env GitHub_validate) (\<lambda>_.
     await (invoke env GitLab_validate) (\<lambda>_.
     validate env (cs_npmClient (opt_primary opts))))))"

text \<open>Lines 69 to 79; the result is \<open>latestVersion\<close> of line 75.\<close>

definition resolve_version :: "env \<Rightarrow> options \<Rightarrow> string js io" where
  "resolve_version env opts =
     await (hook env (opt_beforeStart opts)) (\<lambda>_.
     await (v_setLatestVersion env) (\<lambda>_.
     await (v_bump env (opt_increment opts)) (\<lambda>_.
     await (setRuntimeOptions_details env) (\<lambda>_. reading (\<lambda>w.
       (let latestVersion = v_latestVersion w;
            suffix = (if truthy (v_version w)
                      then interp latestVersion @ ''...'' @ interp (v_version w)
                      else ''currently at '' @ interp latestVersion)
        in await (log_log (EOL @ rocket @ '' Let's release '' @ opt_name opts @ '' ('' @ suffix @ '')''))
             (\<lambda>_. resolve latestVersion)))))))"

text \<open>Lines 81 to 85.\<close>

definition generateAndPreviewChangelog :: "env \<Rightarrow> js_value io" where
  "generateAndPreviewChangelog env =
     await (invoke env Changelog_generate) (\<lambda>changelog.
     await (logPreview ''changelog'' changelog) (\<lambda>_. resolve changelog))"

text \<open>Lines 88 to 94; the result is the variable \<open>changelog\<close>.\<close>

definition changelog_before_bump :: "env \<Rightarrow> options \<Rightarrow> js_value io" where
  "changelog_before_bump env opts =
     (let isDeferChangeLog = version_isRecommendation env (opt_increment opts) in
      if \<not> isDeferChangeLog then
        await (generateAndPreviewChangelog env) (\<lambda>changelog.
        await (emit (Set_runtime_changelog changelog)) (\<lambda>_. resolve changelog))
      else resolve V_undefined)"

text \<open>Lines 97 to 105.\<close>

definition prompt_for_version :: "env \<Rightarrow> options \<Rightarrow> unit io" where
  "prompt_for_version env opts =
     reading (\<lambda>w.
       if opt_isInteractive opts \<and> \<not> truthy (v_version w) then
         await (prompt_show env True (Val ''incrementList'') (\<lambda>increment.
                  if truthy increment then v_bump env increment
                  else prompt_show env True (Val ''version'') (\<lambda>version.
                         await (update (\<lambda>w'. w'\<lparr>v_version := version\<rparr>)) (\<lambda>_.
                         resolve (to_value version)))))
           (\<lambda>_. resolve ())
       else resolve ())"

text \<open>Lines 107 to 109; the result is \<open>version\<close> and \<open>isPreRelease\<close> of \<open>v.details\<close>.\<close>

definition validate_version :: "env \<Rightarrow> (string js \<times> bool) io" where
  "validate_version env =
     await (invoke env Version_validate) (\<lambda>_.
     await (setRuntimeOptions_details env) (\<lambda>_. reading (\<lambda>w.
       resolve (v_version w, version_isPreRelease env (v_version w)))))"

text \<open>Lines 112 to 115.\<close>

definition register_reset :: "options \<Rightarrow> unit io" where
  "register_reset opts =
     run_if (opt_isInteractive opts \<and> not_nullish (opt_pkgFiles opts)
             \<and> git_requireCleanWorkingDir (cs_git (opt_primary opts)))
       (await (emit (Process_on ''SIGINT'')) (\<lambda>_. emit (Process_on ''exit'')))"

text \<open>Lines 118 to 120.\<close>

definition bump :: "env \<Rightarrow> options \<Rightarrow> js_value io" where
  "bump env opts =
     await (hook env (opt_beforeBump opts)) (\<lambda>_.
     await (spinner_show True (invoke env Shell_bump)) (\<lambda>_.
     hook env (opt_afterBump opts)))"

text \<open>Lines 123 to 126.\<close>

definition changelog_after_bump :: "env \<Rightarrow> options \<Rightarrow> js_value \<Rightarrow> js_value io" where
  "changelog_after_bump env opts changelog0 =
     (let isDeferChangeLog = version_isRecommendation env (opt_increment opts) in
      if isDeferChangeLog then
        await (generateAndPreviewChangelog env) (\<lambda>changelog.
        await (emit (Set_runtime_changelog changelog)) (\<lambda>_. resolve changelog))
      else resolve changelog0)"

text \<open>Lines 128 to 134.\<close>

definition stage :: "env \<Rightarrow> options \<Rightarrow> unit io" where
  "stage env opts =
     await (hook env (opt_beforeStage opts)) (\<lambda>_.
     await (invoke env Git_stage) (\<lambda>_.
     await (invoke env Git_stageDir) (\<lambda>_.
     if truthy (dist_repo opts) then await (invoke env PrepareDistRepo) (\<lambda>_. resolve ())
     else resolve ())))"

text \<open>\<open>release\<close>, lines 144 to 148: Git.\<close>

definition release_git :: "env \<Rightarrow> scope \<Rightarrow> client_set \<Rightarrow> js_value io" where
  "release_git env sc cs =
     (let t = cs_target cs; git = cs_git cs; i = sc_isInteractive sc in
      await (run_if (git_commit git)
               (await (invoke env (Git_status t)) (\<lambda>status. logPreview ''changeset'' status))) (\<lambda>_.
      await (step env i (git_commit git) (Val ''commit'') (invoke env (Git_commit t))) (\<lambda>_.
      await (step env i (git_tag git) (Val ''tag'') (invoke env (Git_tag t))) (\<lambda>_.
      step env i (git_push git) (Val ''push'') (invoke env (Git_push t))))))"

text \<open>Lines 152 to 160: the GitHub release and its assets.\<close>

definition github_steps :: "env \<Rightarrow> scope \<Rightarrow> client_set \<Rightarrow> js_value io" where
  "github_steps env sc cs =
     (let t = cs_target cs; github = cs_github cs;
          ghRelease = ghClient_release env t;
          ghUploadAssets = invoke env (GitHub_uploadAssets t)
      in
      if sc_isInteractive sc then
        step env True (github_release github) (Val ''ghRelease'')
          (await ghRelease (\<lambda>r. if truthy_value r then ghUploadAssets else resolve r))
      else
        await (step env False (github_release github) Undefined ghRelease) (\<lambda>_.
        step env False (github_assets github) Undefined ghUploadAssets))"

text \<open>Lines 150 to 160: GitHub.\<close>

definition release_github :: "env \<Rightarrow> scope \<Rightarrow> client_set \<Rightarrow> js_value io" where
  "release_github env sc cs =
     (let t = cs_target cs; github = cs_github cs in
      await (run_if (github_release github \<and> truthy (github_releaseNotes github))
               (await (invoke env (GitHub_getNotes t)) (\<lambda>notes. logPreview ''release notes'' notes))) (\<lambda>_.
      github_steps env sc cs))"

text \<open>Lines 162 to 165: GitLab.\<close>

definition release_gitlab :: "env \<Rightarrow> scope \<Rightarrow> client_set \<Rightarrow> js_value io" where
  "release_gitlab env sc cs =
     (let t = cs_target cs; gitlab = cs_gitlab cs in
      await (run_if (gitlab_release gitlab \<and> truthy (gitlab_releaseNotes gitlab))
               (await (invoke env (GitLab_getNotes t)) (\<lambda>notes. logPreview ''release notes'' notes))) (\<lambda>_.
      step env (sc_isInteractive sc) (gitlab_release gitlab) (Val ''glRelease'') (glClient_release env t)))"

text \<open>Lines 167 to 170: npm.\<close>

definition otpCallback :: "env \<Rightarrow> scope \<Rightarrow> ((string js \<Rightarrow> js_value io) \<Rightarrow> js_value io) option" where
  "otpCallback env sc =
     (if sc_isInteractive sc then Some (\<lambda>task. prompt_show env True (Val ''otp'') task) else None)"

definition release_npm :: "nat \<Rightarrow> env \<Rightarrow> scope \<Rightarrow> client_set \<Rightarrow> js_value io" where
  "release_npm fuel env sc cs =
     (let npmClient = cs_npmClient cs in
      step env (sc_isInteractive sc) (npm_publish (npm_opts npmClient)) (Val ''publish'')
        (publish fuel env npmClient
           \<lparr>arg_tag = Undefined, arg_version = sc_version sc, arg_isPreRelease = sc_isPreRelease sc,
            arg_otp = Undefined, arg_otpCallback = otpCallback env sc\<rparr>))"

text \<open>Lines 172 to 178: wrap up.\<close>

definition release_wrap_up :: "env \<Rightarrow> client_set \<Rightarrow> unit io" where
  "release_wrap_up env cs =
     (let t = cs_target cs; npmClient = cs_npmClient cs in
      await (hook env (cs_afterRelease cs)) (\<lambda>_.
      await (reading (\<lambda>w. run_if (github_isReleased w t)
                                (log_log (link @ '' '' @ getReleaseUrl_github env t)))) (\<lambda>_.
      await (reading (\<lambda>w. run_if (gitlab_isReleased w t)
                                (log_log (link @ '' '' @ getReleaseUrl_gitlab env t)))) (\<lambda>_.
      reading (\<lambda>w. run_if (isPublished w (npm_ref npmClient))
                         (log_log (link @ '' '' @ getPackageUrl npmClient)))))))"

text \<open>\<open>release\<close>, lines 138 to 179.\<close>

definition release :: "nat \<Rightarrow> env \<Rightarrow> scope \<Rightarrow> client_set \<Rightarrow> unit io" where
  "release fuel env sc cs =
     await (release_git env sc cs) (\<lambda>_.
     await (release_github env sc cs) (\<lambda>_.
     await (release_gitlab env sc cs) (\<lambda>_.
     await (release_npm fuel env sc cs) (\<lambda>_.
     release_wrap_up env cs))))"

text \<open>Lines 183 to 192: the release of the distribution repository.\<close>

definition release_distribution :: "nat \<Rightarrow> env \<Rightarrow> scope \<Rightarrow> options \<Rightarrow> unit io" where
  "release_distribution fuel env sc opts =
     (if truthy (dist_repo opts) then
        (let stageDir = opt_dist_stageDir opts in
         await (shell_pushd env stageDir) (\<lambda>_.
         await (invoke env GitDist_init) (\<lambda>_.
         await (invoke env GitDist_handleTagOptions) (\<lambda>_.
         await (invoke env GetDistRepoClients) (\<lambda>_.
         await (release fuel env sc (opt_distribution opts)) (\<lambda>_.
         await (shell_popd env) (\<lambda>_.
         await (run env (Val (''!rm -rf '' @ stageDir))) (\<lambda>_. resolve ()))))))))
      else resolve ())"

text \<open>Lines 194 to 203.\<close>

definition finish :: "env \<Rightarrow> options \<Rightarrow> js_value \<Rightarrow> string js \<Rightarrow> string js \<Rightarrow> pipeline_result io" where
  "finish env opts changelog latestVersion version =
     await (emit (Metrics_event ''end'')) (\<lambda>_.
     await (reading (\<lambda>w. log_log (flag @ '' Done (in '' @ decimal (uptime env (events w)) @ ''s.)''))) (\<lambda>_.
     resolve \<lparr>res_name = opt_name opts, res_changelog = changelog,
              res_latestVersion = latestVersion, res_version = version\<rparr>))"

text \<open>The mutating part, lines 111 to 203, once the version is known.\<close>

definition perform :: "nat \<Rightarrow> env \<Rightarrow> options \<Rightarrow> js_value \<Rightarrow> string js \<Rightarrow> string js \<times> bool \<Rightarrow> pipeline_result io" where
  "perform fuel env opts changelog0 latestVersion details =
     (let version = fst details; isPreRelease = snd details in
      await (register_reset opts) (\<lambda>_.
      await (bump env opts) (\<lambda>_.
      await (changelog_after_bump env opts changelog0) (\<lambda>changelog.
      (let sc = \<lparr>sc_isInteractive = opt_isInteractive opts, sc_version = version,
                 sc_isPreRelease = isPreRelease, sc_changelog = changelog\<rparr> in
       await (stage env opts) (\<lambda>_.
       await (release fuel env sc (opt_primary opts)) (\<lambda>_.
       await (release_distribution fuel env sc opts) (\<lambda>_.
       finish env opts changelog latestVersion version))))))))"

text \<open>Lines 62 to 203: all that follows the validations.\<close>

definition after_validation :: "nat \<Rightarrow> env \<Rightarrow> options \<Rightarrow> pipeline_result io" where
  "after_validation fuel env opts =
     await (resolve_version env opts) (\<lambda>latestVersion.
     await (changelog_before_bump env opts) (\<lambda>changelog0.
     await (prompt_for_version env opts) (\<lambda>_.
     await (validate_version env) (\<lambda>details.
     perform fuel env opts changelog0 latestVersion details))))"

text \<open>The block under \<open>try\<close>, lines 32 to 203.\<close>

definition runTasks_try :: "nat \<Rightarrow> env \<Rightarrow> options \<Rightarrow> pipeline_result io" where
  "runTasks_try fuel env opts =
     await (start env opts) (\<lambda>_.
     await (validate_clients env opts) (\<lambda>_.
     after_validation fuel env opts))"

text \<open>The handler under \<open>catch\<close>, lines 204 to 213.\<close>

definition handle_error :: "js_error \<Rightarrow> pipeline_result io" where
  "handle_error err =
     await (emit (Metrics_exception err)) (\<lambda>_.
     await (if instanceof_ReleaseItError err then
              await (log_error (if message err \<noteq> [] then message err else toString err)) (\<lambda>_. debug err)
            else emit (Console_error err)) (\<lambda>_.
     throw err))"

definition runTasks :: "nat \<Rightarrow> env \<Rightarrow> options \<Rightarrow> pipeline_result io" where
  "runTasks fuel env opts = catch (runTasks_try fuel env opts) handle_error"

text \<open>
  The world a rejected publish command leaves behind (lines 64 to 73): the command and
  the debug line, and the warning when a password had been given.
\<close>

definition after_rejection :: "env \<Rightarrow> npm_client \<Rightarrow> publish_args \<Rightarrow> js_error \<Rightarrow> world \<Rightarrow> world" where
  "after_rejection env this args err w =
     w\<lparr>events := events w @ [Shell_run (publish_command env this args), Debug err]
          @ (if regex_test ''one-time pass'' (toString err) \<and> not_nullish (otp_param this args)
             then [Log_warn ''The provided OTP is incorrect or has expired.''] else [])\<rparr>"

section \<open>Runs and what they leave unchanged\<close>

text \<open>
  \<open>preserves R m\<close>: every run of \<open>m\<close> that settles relates the world before to the
  world after.  The relations of interest are reflexive and transitive (\<open>steady\<close>), and
  \<open>admits R ev\<close> says that appending the event \<open>ev\<close> to the trace is allowed.
\<close>

definition preserves :: "(world \<Rightarrow> world \<Rightarrow> bool) \<Rightarrow> 'a io \<Rightarrow> bool" where
  "preserves R m = (\<forall>w r w'. m w = Some (r, w') \<longrightarrow> R w w')"

definition steady :: "(world \<Rightarrow> world \<Rightarrow> bool) \<Rightarrow> bool" where
  "steady R = ((\<forall>w. R w w) \<and> (\<forall>a b c. R a b \<longrightarrow> R b c \<longrightarrow> R a c))"

definition admits :: "(world \<Rightarrow> world \<Rightarrow> bool) \<Rightarrow> event \<Rightarrow> bool" where
  "admits R ev = (\<forall>w. R w (w\<lparr>events := events w @ [ev]\<rparr>))"

text \<open>The working directory is the same.\<close>

definition same_dirs :: "world \<Rightarrow> world \<Rightarrow> bool" where
  "same_dirs w w' = (dirs w' = dirs w)"

text \<open>The trace has grown, by events that all satisfy \<open>P\<close>.\<close>

definition grows :: "(event \<Rightarrow> bool) \<Rightarrow> world \<Rightarrow> world \<Rightarrow> bool" where
  "grows P w w' = (\<exists>tr. events w' = events w @ tr \<and> list_all P tr)"

text \<open>What a run added to the trace.\<close>

definition added :: "world \<Rightarrow> world \<Rightarrow> event list" where
  "added w w' = drop (length (events w)) (events w')"

text \<open>\<open>before_all a Q tr\<close>: no event that satisfies \<open>Q\<close> occurs in \<open>tr\<close> before the event \<open>a\<close> has occurred.\<close>

fun before_all :: "event \<Rightarrow> (event \<Rightarrow> bool) \<Rightarrow> event list \<Rightarrow> bool" where
  "before_all a Q [] = True"
| "before_all a Q (x # xs) = (x = a \<or> (\<not> Q x \<and> before_all a Q xs))"

text \<open>The trace has grown, and in what was added no event that satisfies \<open>Q\<close> comes before \<open>a\<close>.\<close>

definition ordered :: "event \<Rightarrow> (event \<Rightarrow> bool) \<Rightarrow> world \<Rightarrow> world \<Rightarrow> bool" where
  "ordered a Q w w' = (\<exists>tr. events w' = events w @ tr \<and> before_all a Q tr)"

text \<open>
  Where a run with a distribution repository leaves the working directory: where it was,
  or, after an error, in the staging directory.
\<close>

definition left_in :: "string \<Rightarrow> string list \<Rightarrow> (js_error + 'a) \<Rightarrow> world \<Rightarrow> bool" where
  "left_in stageDir d r w' = (dirs w' = d \<or> ((\<exists>e. r = Inl e) \<and> dirs w' = stageDir # d))"

text \<open>The calls on the clients of one target.\<close>

fun call_target :: "call \<Rightarrow> target option" where
  "call_target (Git_status t) = Some t"
| "call_target (Git_commit t) = Some t"
| "call_target (Git_tag t) = Some t"
| "call_target (Git_push t) = Some t"
| "call_target (GitHub_getNotes t) = Some t"
| "call_target (GitHub_release t) = Some t"
| "call_target (GitHub_uploadAssets t) = Some t"
| "call_target (GitLab_getNotes t) = Some t"
| "call_target (GitLab_release t) = Some t"
| "call_target c = None"

fun on_target :: "target \<Rightarrow> event \<Rightarrow> bool" where
  "on_target t (Call c) = (call_target c = Some t)"
| "on_target t ev = False"

text \<open>
  \<open>accepted env C h tr\<close>: in \<open>tr\<close>, which follows the trace \<open>h\<close>, some shell command
  that satisfies \<open>C\<close> was run and resolved.
\<close>

fun accepted :: "env \<Rightarrow> (string \<Rightarrow> bool) \<Rightarrow> event list \<Rightarrow> event list \<Rightarrow> bool" where
  "accepted env C h [] = False"
| "accepted env C h (ev # tr) =
     ((case ev of Shell_run c \<Rightarrow> C c \<and> shell_result env c h = None | _ \<Rightarrow> False)
      \<or> accepted env C (h @ [ev]) tr)"

definition is_publish :: "string \<Rightarrow> bool" where
  "is_publish c = startsWith c ''npm publish ''"

text \<open>
  The flag of the client \<open>ref\<close> is set after the run exactly if it was set before or a
  publish command was accepted in between; no other flag has changed.
\<close>

definition published_iff :: "env \<Rightarrow> target \<Rightarrow> world \<Rightarrow> world \<Rightarrow> bool" where
  "published_iff env ref w w' =
     (\<exists>tr. events w' = events w @ tr \<and>
        (\<forall>t. isPublished w' t = (isPublished w t \<or> (t = ref \<and> accepted env is_publish (events w) tr))))"

text \<open>No flag of an npm client has changed.\<close>

definition same_published :: "world \<Rightarrow> world \<Rightarrow> bool" where
  "same_published w w' = (isPublished w' = isPublished w)"

text \<open>The line was logged only with the flag set, and the flag stays set.\<close>

definition announces :: "string \<Rightarrow> target \<Rightarrow> world \<Rightarrow> world \<Rightarrow> bool" where
  "announces line ref w w' =
     (\<exists>tr. events w' = events w @ tr \<and> (Log_log line \<in> set tr \<longrightarrow> isPublished w' ref)
        \<and> (isPublished w ref \<longrightarrow> isPublished w' ref))"

text \<open>What only the publish step and the npm client add to the trace of a release.\<close>

fun publish_event :: "event \<Rightarrow> bool" where
  "publish_event (Shell_run c) = True"
| "publish_event (Log_warn m) = True"
| "publish_event (Debug e) = True"
| "publish_event (Prompt p) = (p = Val ''otp'' \<or> p = Val ''publish'')"
| "publish_event ev = False"

fun is_shell_run :: "event \<Rightarrow> bool" where
  "is_shell_run (Shell_run c) = True"
| "is_shell_run ev = False"

definition package_line :: "npm_client \<Rightarrow> string" where
  "package_line npmClient = link @ '' '' @ getPackageUrl npmClient"

text \<open>
  The validations of lines 56 to 60, as they show in the trace: the four calls, and the
  two commands with which the npm client probes the registry.
\<close>

fun is_validation :: "event \<Rightarrow> bool" where
  "is_validation (Call c) = (c = Git_validate \<or> c = GitDist_validate \<or> c = GitHub_validate \<or> c = GitLab_validate)"
| "is_validation (Shell_run c) = (c = ''npm ping'' \<or> c = ''npm whoami'')"
| "is_validation ev = False"

text \<open>
  The steps that change something outside: the bump of the manifest, staging, the
  preparation of the distribution repository, everything a client of a target does but
  reading, and the publish command.
\<close>

fun mutating_call :: "call \<Rightarrow> bool" where
  "mutating_call Shell_bump = True"
| "mutating_call Git_stage = True"
| "mutating_call Git_stageDir = True"
| "mutating_call PrepareDistRepo = True"
| "mutating_call GitDist_init = True"
| "mutating_call (Git_commit t) = True"
| "mutating_call (Git_tag t) = True"
| "mutating_call (Git_push t) = True"
| "mutating_call (GitHub_release t) = True"
| "mutating_call (GitHub_uploadAssets t) = True"
| "mutating_call (GitLab_release t) = True"
| "mutating_call c = False"

fun is_mutating :: "event \<Rightarrow> bool" where
  "is_mutating (Call c) = mutating_call c"
| "is_mutating (Shell_run c) = is_publish c"
| "is_mutating ev = False"

text \<open>What lines 33 to 42 add to the trace, and what the handler under \<open>catch\<close> adds.\<close>

definition start_trace :: "options \<Rightarrow> event list" where
  "start_trace opts =
     Call HandleDeprecated #
     (if truthy (opt_config_dist_repo opts) then [Log_warn deprecation_warning] else []) @
     [Metrics_event ''start'']"

definition handler_trace :: "js_error \<Rightarrow> event list" where
  "handler_trace err =
     Metrics_exception err #
     (if instanceof_ReleaseItError err
      then [Log_error (if message err \<noteq> [] then message err else toString err), Debug err]
      else [Console_error err])"

text \<open>What the validations add to the trace when all of them pass.\<close>

definition validation_trace :: "options \<Rightarrow> event list" where
  "validation_trace opts =
     [Call Git_validate, Call GitDist_validate, Call GitHub_validate, Call GitLab_validate] @
     (if npm_publish (npm_opts (cs_npmClient (opt_primary opts)))
      then [Shell_run ''npm ping'', Shell_run ''npm whoami''] else [])"

text \<open>
  The release sequence, as it shows in the trace: the calls on the clients of a target
  and the publish command.
\<close>

fun release_event :: "event \<Rightarrow> bool" where
  "release_event (Call c) = (call_target c \<noteq> None)"
| "release_event (Shell_run c) = is_publish c"
| "release_event ev = False"

text \<open>Neither the generation of the changelog, nor the bump of the manifest, nor the release sequence.\<close>

definition quiet :: "event \<Rightarrow> bool" where
  "quiet ev = (ev \<noteq> Call Changelog_generate \<and> ev \<noteq> Call Shell_bump \<and> \<not> release_event ev)"

text \<open>What a lifecycle hook adds to the trace.\<close>

definition hook_trace :: "string js \<Rightarrow> event list" where
  "hook_trace script = (if enabled_script script then [Run_template script] else [])"

text \<open>
  The trace \<open>tr\<close> of a run with a deferred changelog, after the trace \<open>h\<close>.  Either the
  run failed before it generated a changelog or released anything; or the changelog was
  generated once, right after the bump of the manifest and the \<open>afterBump\<close> hook, and
  then either the run failed without releasing anything, or what was generated was
  previewed and stored in the runtime options before anything else happened.
\<close>

definition deferred_trace :: "env \<Rightarrow> options \<Rightarrow> event list \<Rightarrow> bool \<Rightarrow> event list \<Rightarrow> bool" where
  "deferred_trace env opts h failed tr =
     ((failed \<and> list_all (\<lambda>e. e \<noteq> Call Changelog_generate \<and> \<not> release_event e) tr) \<or>
      (\<exists>u v. tr = u @ Call Shell_bump # hook_trace (opt_afterBump opts) @ Call Changelog_generate # v
         \<and> list_all quiet u
         \<and> list_all (\<lambda>e. e \<noteq> Call Changelog_generate \<and> e \<noteq> Call Shell_bump) v
         \<and> ((failed \<and> list_all (\<lambda>e. \<not> release_event e) v) \<or>
            (\<exists>c v'. v = Log_preview ''changelog'' c # Set_runtime_changelog c # v' \<and>
               call_outcome env Changelog_generate
                 (h @ u @ Call Shell_bump # hook_trace (opt_afterBump opts)) = Inr c))))"

text \<open>
  The trace of a run with a changelog that is not deferred.  Either the run failed before
  it bumped the manifest or released anything; or the changelog was generated once,
  previewed and stored in the runtime options, before the bump and the release sequence.
\<close>

definition early_trace :: "env \<Rightarrow> event list \<Rightarrow> bool \<Rightarrow> event list \<Rightarrow> bool" where
  "early_trace env h failed tr =
     ((failed \<and> list_all (\<lambda>e. e \<noteq> Call Shell_bump \<and> \<not> release_event e) tr) \<or>
      (\<exists>u c v. tr = u @ Call Changelog_generate # Log_preview ''changelog'' c # Set_runtime_changelog c # v
         \<and> list_all quiet u
         \<and> list_all (\<lambda>e. e \<noteq> Call Changelog_generate) v
         \<and> call_outcome env Changelog_generate (h @ u) = Inr c))"

text \<open>
  The steps the environment settles, and the error with which a step is rejected when it
  is taken after the trace \<open>h\<close>, if it is rejected.  \<open>handleDeprecated\<close> only rewrites
  the options.
\<close>

fun is_step :: "event \<Rightarrow> bool" where
  "is_step (Call c) = (c \<noteq> HandleDeprecated)"
| "is_step (Run_template s) = True"
| "is_step (Shell_run c) = True"
| "is_step ev = False"

fun step_error :: "env \<Rightarrow> event list \<Rightarrow> event \<Rightarrow> js_error option" where
  "step_error env h (Call c) =
     (if c = HandleDeprecated then None
      else case call_outcome env c h of Inl e \<Rightarrow> Some e | Inr v \<Rightarrow> None)"
| "step_error env h (Run_template s) = template_result env s h"
| "step_error env h (Shell_run c) = shell_result env c h"
| "step_error env h ev = None"

fun is_publish_event :: "event \<Rightarrow> bool" where
  "is_publish_event (Shell_run c) = is_publish c"
| "is_publish_event ev = False"

text \<open>
  What is thrown for a step that was rejected with \<open>e\<close>: the error itself, but for the
  two probes of the registry, where the npm client throws an error of its own.
\<close>

definition raised :: "event \<Rightarrow> js_error \<Rightarrow> js_error" where
  "raised ev e =
     (if ev = Shell_run ''npm ping'' then new_npmTimeoutError REGISTRY_TIMEOUT
      else if ev = Shell_run ''npm whoami'' then new_npmAuthError
      else e)"

text \<open>The error of a settled promise, if it was rejected.\<close>

definition error_of :: "js_error + 'a \<Rightarrow> js_error option" where
  "error_of r = (case r of Inl e \<Rightarrow> Some e | Inr a \<Rightarrow> None)"

text \<open>The warning of line 72, or nothing.\<close>

definition otp_warning :: "event list \<Rightarrow> bool" where
  "otp_warning ws = (ws = [] \<or> ws = [Log_warn ''The provided OTP is incorrect or has expired.''])"

text \<open>
  \<open>aborts tail interactive ev e r post\<close>: the step \<open>ev\<close> was rejected with \<open>e\<close>, and
  \<open>post\<close> is all that happened after it in a run that settled as \<open>r\<close>.  The error that
  is thrown for the step is the error of the run, and after the step comes only what the
  handlers do, which is \<open>tail\<close> in the end.  The one exception is a publish command that
  is rejected for the one-time password in interactive mode: the user is asked for one.
\<close>

definition aborts ::
  "(js_error \<Rightarrow> event list) \<Rightarrow> bool \<Rightarrow> event \<Rightarrow> js_error \<Rightarrow> js_error option \<Rightarrow> event list \<Rightarrow> bool" where
  "aborts tail interactive ev e r post =
     (if is_publish_event ev then
        (\<exists>ws. otp_warning ws \<and>
           ((r = Some e \<and> post = Debug e # ws @ tail e) \<or>
            (interactive \<and> regex_test ''one-time pass'' (toString e) \<and>
             (\<exists>rest. post = Debug e # ws @ Prompt (Val ''otp'') # rest))))
      else r = Some (raised ev e) \<and> post = tail (raised ev e))"

text \<open>Every step of the trace \<open>tr\<close>, which follows \<open>h\<close>, that was rejected aborts the run.\<close>

fun fail_fast ::
  "env \<Rightarrow> (js_error \<Rightarrow> event list) \<Rightarrow> bool \<Rightarrow> event list \<Rightarrow> js_error option \<Rightarrow> event list \<Rightarrow> bool" where
  "fail_fast env tail interactive h r [] = True"
| "fail_fast env tail interactive h r (ev # tr) =
     ((case step_error env h ev of None \<Rightarrow> True | Some e \<Rightarrow> aborts tail interactive ev e r tr)
      \<and> fail_fast env tail interactive (h @ [ev]) r tr)"

text \<open>An action all whose runs are of that kind, before any handler.\<close>

definition guarded :: "env \<Rightarrow> bool \<Rightarrow> 'a io \<Rightarrow> bool" where
  "guarded env interactive m =
     (\<forall>w r w'. m w = Some (r, w') \<longrightarrow>
        (\<exists>tr. events w' = events w @ tr \<and> fail_fast env (\<lambda>_. []) interactive (events w) (error_of r) tr))"

section \<open>Concrete runs\<close>

text \<open>\<open>s.split(d)\<close>\<close>

fun split_on :: "char \<Rightarrow> string \<Rightarrow> string list" where
  "split_on d [] = [[]]"
| "split_on d (c # cs) =
     (if c = d then [] # split_on d cs
      else (case split_on d cs of [] \<Rightarrow> [[c]] | p # ps \<Rightarrow> (c # p) # ps))"

definition is_numeric :: "string \<Rightarrow> bool" where
  "is_numeric s = (s \<noteq> [] \<and> list_all (\<lambda>c. c \<in> set ''0123456789'') s)"

text \<open>
  A reading of the semver package's \<open>prerelease\<close> for versions written
  \<open>major.minor.patch[-prerelease][+build]\<close>: the dot-separated identifiers between the
  hyphen and the plus sign, \<open>null\<close> when there are none or the version is not of that
  form.  It stands in the environment of the examples; the theorems hold for every
  function in its place.
\<close>

definition semver_prerelease :: "string \<Rightarrow> string list option" where
  "semver_prerelease v =
     (let main = takeWhile (\<lambda>c. c \<noteq> CHR ''+'') v;
          core = takeWhile (\<lambda>c. c \<noteq> CHR ''-'') main;
          pre = drop (Suc (length core)) main;
          ids = split_on CHR ''.'' pre
      in if length (split_on CHR ''.'' core) = 3 \<and> list_all is_numeric (split_on CHR ''.'' core)
            \<and> pre \<noteq> [] \<and> list_all (\<lambda>i. i \<noteq> []) ids
         then Some ids else None)"

text \<open>A world in which nothing has happened yet.\<close>

definition world0 :: world where
  "world0 = \<lparr>events = [], isPublished = (\<lambda>t. False), github_isReleased = (\<lambda>t. False),
     gitlab_isReleased = (\<lambda>t. False), dirs = [''/repo''], v_latestVersion = Undefined,
     v_version = Undefined\<rparr>"

text \<open>An environment in which every command and every call succeeds and every prompt is confirmed.\<close>

definition quiet_env :: env where
  "quiet_env = \<lparr>shell_result = (\<lambda>c h. None), template_result = (\<lambda>c h. None),
     call_outcome = (\<lambda>c h. Inr V_undefined), user_answer = (\<lambda>p h. Some Undefined),
     prerelease = (\<lambda>v. None), version_isRecommendation = (\<lambda>i. False),
     version_isPreRelease = (\<lambda>v. False),
     getReleaseUrl_github = (\<lambda>t. ''https://github.example/releases''),
     getReleaseUrl_gitlab = (\<lambda>t. ''https://gitlab.example/tags''), uptime = (\<lambda>h. 0)\<rparr>"

definition my_package :: npm_options where
  "my_package = \<lparr>npm_name = ''my-package'', npm_publish = True, npm_publishPath = Undefined,
     npm_access = Null, npm_private = False, npm_tag = Val ''latest'', npm_otp = Null,
     npm_isDryRun = False\<rparr>"

definition private_client :: npm_client where
  "private_client = \<lparr>npm_ref = Primary, npm_opts = my_package\<lparr>npm_private := True\<rparr>\<rparr>"

definition public_client :: npm_client where
  "public_client = \<lparr>npm_ref = Primary, npm_opts = my_package\<rparr>"

definition semver_env :: env where
  "semver_env = quiet_env\<lparr>prerelease := semver_prerelease\<rparr>"

definition alpha_args :: publish_args where
  "alpha_args = \<lparr>arg_tag = Undefined, arg_version = Val ''1.1.0-alpha.0'', arg_isPreRelease = True,
     arg_otp = Undefined, arg_otpCallback = None\<rparr>"

text \<open>A pre-release flag on a version without a prerelease segment, and no tag anywhere.\<close>

definition untagged_client :: npm_client where
  "untagged_client = \<lparr>npm_ref = Primary, npm_opts = my_package\<lparr>npm_tag := Undefined\<rparr>\<rparr>"

definition odd_args :: publish_args where
  "odd_args = \<lparr>arg_tag = Undefined, arg_version = Val ''1.1.0'', arg_isPreRelease = True,
     arg_otp = Undefined, arg_otpCallback = None\<rparr>"

text \<open>
  The registry asks for a one-time password on the first command and accepts the second;
  the callback asks the user, who types 123456, and runs the task once.
\<close>

definition otp_error :: js_error where
  "otp_error = Foreign ''Error'' ''npm ERR! code EOTP: This operation requires a one-time password.''"

definition otp_env :: env where
  "otp_env = quiet_env\<lparr>shell_result := (\<lambda>c h. if h = [] then Some otp_error else None)\<rparr>"

definition typing_callback :: "(string js \<Rightarrow> js_value io) \<Rightarrow> js_value io" where
  "typing_callback = (\<lambda>task w. task (Val ''123456'') (w\<lparr>events := events w @ [Prompt (Val ''otp'')]\<rparr>))"

definition otp_args :: publish_args where
  "otp_args = \<lparr>arg_tag = Undefined, arg_version = Val ''1.0.1'', arg_isPreRelease = False,
     arg_otp = Undefined, arg_otpCallback = Some typing_callback\<rparr>"

definition plain_args :: publish_args where
  "plain_args = \<lparr>arg_tag = Undefined, arg_version = Val ''1.0.1'', arg_isPreRelease = False,
     arg_otp = Undefined, arg_otpCallback = None\<rparr>"

text \<open>
  A run with a distribution repository in which the commit on the distribution
  repository fails: options, environment, and the world the run ends in.
\<close>

definition idle_git :: git_options where
  "idle_git = \<lparr>git_commit = False, git_tag = False, git_push = False, git_requireCleanWorkingDir = True\<rparr>"

definition idle_github :: github_options where
  "idle_github = \<lparr>github_release = False, github_releaseNotes = Null, github_assets = False\<rparr>"

definition idle_gitlab :: gitlab_options where
  "idle_gitlab = \<lparr>gitlab_release = False, gitlab_releaseNotes = Null\<rparr>"

definition unpublished_client :: "target \<Rightarrow> npm_client" where
  "unpublished_client t = \<lparr>npm_ref = t, npm_opts = my_package\<lparr>npm_publish := False\<rparr>\<rparr>"

definition idle_clients :: "target \<Rightarrow> client_set" where
  "idle_clients t = \<lparr>cs_target = t, cs_git = idle_git, cs_github = idle_github, cs_gitlab = idle_gitlab,
     cs_npmClient = unpublished_client t, cs_afterRelease = Null\<rparr>"

definition idle_options :: options where
  "idle_options = \<lparr>opt_name = ''my-package'', opt_isInteractive = False, opt_increment = Val ''patch'',
     opt_pkgFiles = Val [''package.json''], opt_beforeStart = Null, opt_beforeBump = Null,
     opt_afterBump = Null, opt_beforeStage = Null, opt_config_dist_repo = Null, opt_dist_repo = Null,
     opt_dist_stageDir = ''.stage'', opt_primary = idle_clients Primary,
     opt_distribution = idle_clients Distribution\<rparr>"

definition dist_options :: options where
  "dist_options = idle_options\<lparr>opt_dist_repo := Val ''git@example.org:dist.git'',
     opt_distribution := (idle_clients Distribution)\<lparr>cs_git := idle_git\<lparr>git_commit := True\<rparr>\<rparr>\<rparr>"

definition commit_error :: js_error where
  "commit_error = Known GitCommitError ''nothing to commit''"

text \<open>The version resolver goes from 1.0.0 to 1.0.1, and the changelog is one line.\<close>

fun patch_outcome :: "call \<Rightarrow> js_error + js_value" where
  "patch_outcome Version_setLatestVersion = Inr (V_string ''1.0.0'')"
| "patch_outcome (Version_bump i) = Inr (V_string ''1.0.1'')"
| "patch_outcome Changelog_generate = Inr (V_string ''* More file'')"
| "patch_outcome c = Inr V_undefined"

definition patch_env :: env where
  "patch_env = quiet_env\<lparr>call_outcome := (\<lambda>c h. patch_outcome c)\<rparr>"

definition commit_fails_env :: env where
  "commit_fails_env = quiet_env\<lparr>call_outcome :=
     (\<lambda>c h. if c = Git_commit Distribution then Inl commit_error else patch_outcome c)\<rparr>"

text \<open>
  A working directory that is not clean, no token for GitHub and an increment that is not
  one, all at once; and the last two without the first.
\<close>

fun broken_outcome :: "call \<Rightarrow> js_error + js_value" where
  "broken_outcome Git_validate = Inl new_GitCleanWorkingDirError"
| "broken_outcome GitHub_validate = Inl (new_TokenError ''GitHub'' ''GITHUB_TOKEN'')"
| "broken_outcome (Version_bump i) = Inl new_InvalidVersionError"
| "broken_outcome c = Inr V_undefined"

definition broken_env :: env where
  "broken_env = quiet_env\<lparr>call_outcome := (\<lambda>c h. broken_outcome c)\<rparr>"

definition tokenless_env :: env where
  "tokenless_env = quiet_env\<lparr>call_outcome :=
     (\<lambda>c h. if c = Git_validate then Inr V_undefined else broken_outcome c)\<rparr>"

text \<open>
  A GitHub release without assets: the clients, the two modes, and an environment in
  which the release returns \<open>true\<close>.
\<close>

definition github_clients :: client_set where
  "github_clients = (idle_clients Primary)\<lparr>cs_github :=
     \<lparr>github_release = True, github_releaseNotes = Null, github_assets = False\<rparr>\<rparr>"

definition interactive_scope :: scope where
  "interactive_scope = \<lparr>sc_isInteractive = True, sc_version = Val ''1.0.1'', sc_isPreRelease = False,
     sc_changelog = V_string ''* More file''\<rparr>"

definition unattended_scope :: scope where
  "unattended_scope = interactive_scope\<lparr>sc_isInteractive := False\<rparr>"

fun releasing_outcome :: "call \<Rightarrow> js_error + js_value" where
  "releasing_outcome (GitHub_release t) = Inr (V_bool True)"
| "releasing_outcome c = Inr V_undefined"

definition releasing_env :: env where
  "releasing_env = quiet_env\<lparr>call_outcome := (\<lambda>c h. releasing_outcome c)\<rparr>"

text \<open>A release that only publishes, and the world it ends in.\<close>

definition publishing_clients :: client_set where
  "publishing_clients = (idle_clients Primary)\<lparr>cs_npmClient := public_client\<rparr>"

definition published_world :: world where
  "published_world = world0\<lparr>events :=
       [Shell_run ''npm publish . --tag latest   '',
        Log_log (link @ '' https://www.npmjs.com/package/my-package'')],
     isPublished := (\<lambda>t. False)(Primary := True)\<rparr>"

text \<open>What such a run does until the changes are staged.\<close>

definition patch_trace :: "event list" where
  "patch_trace =
     [Call HandleDeprecated, Metrics_event ''start'', Call Git_validate, Call GitDist_validate,
      Call GitHub_validate, Call GitLab_validate, Call Version_setLatestVersion,
      Call (Version_bump (Val ''patch'')), Set_runtime_details (Val ''1.0.0'') (Val ''1.0.1'') False,
      Log_log (EOL @ rocket @ '' Let's release my-package (1.0.0...1.0.1)''),
      Call Changelog_generate, Log_preview ''changelog'' (V_string ''* More file''),
      Set_runtime_changelog (V_string ''* More file''), Call Version_validate,
      Set_runtime_details (Val ''1.0.0'') (Val ''1.0.1'') False, Call Shell_bump, Call Git_stage,
      Call Git_stageDir]"

definition stranded_world :: world where
  "stranded_world = world0\<lparr>events := patch_trace @
     [Call PrepareDistRepo, Call (Shell_pushd ''.stage''), Call GitDist_init,
      Call GitDist_handleTagOptions, Call GetDistRepoClients, Call (Git_status Distribution),
      Log_preview ''changeset'' V_undefined, Call (Git_commit Distribution),
      Metrics_exception commit_error, Log_error ''nothing to commit'', Debug commit_error],
     dirs := [''.stage'', ''/repo''], v_latestVersion := Val ''1.0.0'', v_version := Val ''1.0.1''\<rparr>"

definition released_world :: world where
  "released_world = world0\<lparr>events := patch_trace @
     [Call PrepareDistRepo, Call (Shell_pushd ''.stage''), Call GitDist_init,
      Call GitDist_handleTagOptions, Call GetDistRepoClients, Call (Git_status Distribution),
      Log_preview ''changeset'' V_undefined, Call (Git_commit Distribution), Call Shell_popd,
      Run_template (Val ''!rm -rf .stage''), Metrics_event ''end'',
      Log_log (flag @ '' Done (in 0s.)'')],
     v_latestVersion := Val ''1.0.0'', v_version := Val ''1.0.1''\<rparr>"

definition patch_result :: pipeline_result where
  "patch_result = \<lparr>res_name = ''my-package'', res_changelog = V_string ''* More file'',
     res_latestVersion = Val ''1.0.0'', res_version = Val ''1.0.1''\<rparr>"

text \<open>
  The same run once with a changelog that is not deferred and once with an increment
  that is a recommendation, and the worlds they end in.
\<close>

definition recommending_env :: env where
  "recommending_env = patch_env\<lparr>version_isRecommendation := (\<lambda>i. True)\<rparr>"

definition patched_world :: world where
  "patched_world = world0\<lparr>events := patch_trace @
     [Metrics_event ''end'', Log_log (flag @ '' Done (in 0s.)'')],
     v_latestVersion := Val ''1.0.0'', v_version := Val ''1.0.1''\<rparr>"

definition recommended_world :: world where
  "recommended_world = world0\<lparr>events :=
     [Call HandleDeprecated, Metrics_event ''start'', Call Git_validate, Call GitDist_validate,
      Call GitHub_validate, Call GitLab_validate, Call Version_setLatestVersion,
      Call (Version_bump (Val ''patch'')), Set_runtime_details (Val ''1.0.0'') (Val ''1.0.1'') False,
      Log_log (EOL @ rocket @ '' Let's release my-package (1.0.0...1.0.1)''),
      Call Version_validate, Set_runtime_details (Val ''1.0.0'') (Val ''1.0.1'') False,
      Call Shell_bump, Call Changelog_generate, Log_preview ''changelog'' (V_string ''* More file''),
      Set_runtime_changelog (V_string ''* More file''), Call Git_stage, Call Git_stageDir,
      Metrics_event ''end'', Log_log (flag @ '' Done (in 0s.)'')],
     v_latestVersion := Val ''1.0.0'', v_version := Val ''1.0.1''\<rparr>"

text \<open>
  An interactive run that publishes, with a registry that asks for a one-time password
  until the user has been asked for one, and a user who confirms every step and types
  123456: the environment, what the run does before and after the command that is
  rejected, and the world it ends in.
\<close>

definition interactive_options :: options where
  "interactive_options = idle_options\<lparr>opt_isInteractive := True, opt_primary := publishing_clients\<rparr>"

definition asking_env :: env where
  "asking_env = patch_env\<lparr>
     shell_result := (\<lambda>c h. if is_publish c \<and> Prompt (Val ''otp'') \<notin> set h then Some otp_error else None),
     user_answer := (\<lambda>p h. if p = Val ''otp'' then Some (Val ''123456'') else Some Undefined)\<rparr>"

definition before_publish :: "event list" where
  "before_publish =
     [Call HandleDeprecated, Metrics_event ''start'', Call Git_validate, Call GitDist_validate,
      Call GitHub_validate, Call GitLab_validate, Shell_run ''npm ping'', Shell_run ''npm whoami'',
      Call Version_setLatestVersion, Call (Version_bump (Val ''patch'')),
      Set_runtime_details (Val ''1.0.0'') (Val ''1.0.1'') False,
      Log_log (EOL @ rocket @ '' Let's release my-package (1.0.0...1.0.1)''),
      Call Changelog_generate, Log_preview ''changelog'' (V_string ''* More file''),
      Set_runtime_changelog (V_string ''* More file''), Call Version_validate,
      Set_runtime_details (Val ''1.0.0'') (Val ''1.0.1'') False, Process_on ''SIGINT'',
      Process_on ''exit'', Call Shell_bump, Call Git_stage, Call Git_stageDir,
      Prompt (Val ''publish'')]"

definition after_publish :: "event list" where
  "after_publish =
     [Debug otp_error, Prompt (Val ''otp''), Shell_run ''npm publish . --tag latest  --otp 123456 '',
      Log_log (link @ '' https://www.npmjs.com/package/my-package''), Metrics_event ''end'',
      Log_log (flag @ '' Done (in 0s.)'')]"

definition asked_world :: world where
  "asked_world = world0\<lparr>events :=
       before_publish @ Shell_run ''npm publish . --tag latest   '' # after_publish,
     isPublished := (\<lambda>t. False)(Primary := True),
     v_latestVersion := Val ''1.0.0'', v_version := Val ''1.0.1''\<rparr>"

text \<open>The same run with a registry that does not answer the ping.\<close>

definition ping_error :: js_error where
  "ping_error = Foreign ''Error'' ''npm ERR! code ENOTFOUND''"

definition offline_env :: env where
  "offline_env = patch_env\<lparr>shell_result := (\<lambda>c h. if c = ''npm ping'' then Some ping_error else None)\<rparr>"

definition before_ping :: "event list" where
  "before_ping =
     [Call HandleDeprecated, Metrics_event ''start'', Call Git_validate, Call GitDist_validate,
      Call GitHub_validate, Call GitLab_validate]"

definition offline_world :: world where
  "offline_world = world0\<lparr>events :=
     before_ping @ Shell_run ''npm ping'' # handler_trace (new_npmTimeoutError REGISTRY_TIMEOUT)\<rparr>"

section \<open>Rules for runs\<close>

text \<open>All the definitions a concrete run unfolds.\<close>

lemmas run_defs = runTasks_def runTasks_try_def after_validation_def perform_def handle_error_def finish_def
  release_distribution_def release_def release_wrap_up_def release_npm_def otpCallback_def
  release_gitlab_def release_github_def github_steps_def release_git_def stage_def
  changelog_after_bump_def bump_def register_reset_def validate_version_def prompt_for_version_def changelog_before_bump_def
  generateAndPreviewChangelog_def resolve_version_def validate_clients_def start_def dist_repo_def
  setRuntimeOptions_details_def v_bump_def v_setLatestVersion_def glClient_release_def
  ghClient_release_def shell_popd_def shell_pushd_def logPreview_def step_def prompt_show_def hook_def
  spinner_show_def run_def invoke_def publish_body_def publish_command_def resolvedTag_def getTag_def
  tag_param_def otp_param_def set_isPublished_def validate_def isAuthenticated_def isRegistryUp_def
  shell_run_def log_warn_def log_log_def log_error_def debug_def run_if_def emit_def update_def
  reading_def catch_def await_def resolve_def throw_def Let_def

lemmas example_defs = idle_git_def idle_github_def idle_gitlab_def unpublished_client_def
  idle_clients_def idle_options_def dist_options_def commit_error_def patch_env_def
  commit_fails_env_def quiet_env_def my_package_def world0_def patch_trace_def decimal.simps
  digit_def

named_theorems preserves_intros

lemma await_cases:
  assumes "await m f w = Some (r, w')"
  obtains (thrown) e where "m w = Some (Inl e, w')" and "r = Inl e"
        | (continued) a w1 where "m w = Some (Inr a, w1)" and "f a w1 = Some (r, w')"
  using assms by (auto simp: await_def split: option.splits sum.splits prod.splits)

lemma catch_cases:
  assumes "catch m h w = Some (r, w')"
  obtains (caught) e w1 where "m w = Some (Inl e, w1)" and "h e w1 = Some (r, w')"
        | (passed) a where "m w = Some (Inr a, w')" and "r = Inr a"
  using assms by (auto simp: catch_def split: option.splits sum.splits prod.splits)

lemma preservesD: "preserves R m \<Longrightarrow> m w = Some (r, w') \<Longrightarrow> R w w'"
  by (simp add: preserves_def)

lemma steady_trans: "steady R \<Longrightarrow> R a b \<Longrightarrow> R b c \<Longrightarrow> R a c"
  unfolding steady_def by blast

lemma preserves_resolve [preserves_intros]: "steady R \<Longrightarrow> preserves R (resolve a)"
  by (simp add: preserves_def steady_def resolve_def)

lemma preserves_throw [preserves_intros]: "steady R \<Longrightarrow> preserves R (throw e)"
  by (simp add: preserves_def steady_def throw_def)

lemma preserves_await [preserves_intros]:
  assumes "steady R" and "preserves R m" and "\<And>a. preserves R (f a)"
  shows "preserves R (await m f)"
  unfolding preserves_def
proof (intro allI impI)
  fix w r w' assume "await m f w = Some (r, w')"
  then show "R w w'"
  proof (cases rule: await_cases)
    case (thrown e)
    with assms(2) show ?thesis by (simp add: preserves_def)
  next
    case (continued a w1)
    with assms have "R w w1" and "R w1 w'" by (auto simp: preserves_def)
    with assms(1) show ?thesis by (rule steady_trans)
  qed
qed

lemma preserves_catch [preserves_intros]:
  assumes "steady R" and "preserves R m" and "\<And>e. preserves R (h e)"
  shows "preserves R (catch m h)"
  unfolding preserves_def
proof (intro allI impI)
  fix w r w' assume "catch m h w = Some (r, w')"
  then show "R w w'"
  proof (cases rule: catch_cases)
    case (caught e w1)
    with assms have "R w w1" and "R w1 w'" by (auto simp: preserves_def)
    with assms(1) show ?thesis by (rule steady_trans)
  next
    case (passed a)
    with assms(2) show ?thesis by (simp add: preserves_def)
  qed
qed

lemma preserves_reading [preserves_intros]:
  "(\<And>w0. preserves R (f w0)) \<Longrightarrow> preserves R (reading f)"
  by (simp add: preserves_def reading_def)

lemma preserves_update [preserves_intros]:
  "(\<And>w. R w (g w)) \<Longrightarrow> preserves R (update g)"
  by (simp add: preserves_def update_def)

lemma preserves_emit [preserves_intros]: "admits R ev \<Longrightarrow> preserves R (emit ev)"
  by (simp add: preserves_def admits_def emit_def)

lemma preserves_invoke [preserves_intros]: "admits R (Call c) \<Longrightarrow> preserves R (invoke env c)"
  by (auto simp: preserves_def admits_def invoke_def Let_def split: sum.splits)

lemma preserves_run [preserves_intros]: "admits R (Run_template c) \<Longrightarrow> preserves R (run env c)"
  by (auto simp: preserves_def admits_def run_def Let_def split: option.splits)

lemma preserves_shell_run [preserves_intros]: "admits R (Shell_run c) \<Longrightarrow> preserves R (shell_run env c)"
  by (auto simp: preserves_def admits_def shell_run_def Let_def split: option.splits)

lemma preserves_if [preserves_intros]:
  "(c \<Longrightarrow> preserves R a) \<Longrightarrow> (\<not> c \<Longrightarrow> preserves R b) \<Longrightarrow> preserves R (if c then a else b)"
  by simp

lemma preserves_case_option [preserves_intros]:
  "(x = None \<Longrightarrow> preserves R a) \<Longrightarrow> (\<And>y. x = Some y \<Longrightarrow> preserves R (b y))
   \<Longrightarrow> preserves R (case x of None \<Rightarrow> a | Some y \<Rightarrow> b y)"
  by (cases x) simp_all

lemma preserves_none [preserves_intros]: "preserves R (\<lambda>_. None)"
  by (simp add: preserves_def)

lemma steady_same_dirs: "steady same_dirs"
  by (simp add: steady_def same_dirs_def)

lemma admits_same_dirs: "admits same_dirs ev"
  by (simp add: admits_def same_dirs_def)

lemma steady_grows: "steady (grows P)"
  by (auto simp: steady_def grows_def)

lemma admits_grows: "P ev \<Longrightarrow> admits (grows P) ev"
  by (auto simp: admits_def grows_def)

lemma grows_same_events: "events w' = events w \<Longrightarrow> grows P w w'"
  by (simp add: grows_def)

lemma grows_added: "grows P w w' \<Longrightarrow> events w' = events w @ added w w' \<and> list_all P (added w w')"
  by (auto simp: grows_def added_def)

lemmas pipeline_defs = log_warn_def log_log_def log_error_def debug_def run_if_def
  isRegistryUp_def isAuthenticated_def validate_def set_isPublished_def
  spinner_show_def hook_def prompt_show_def step_def logPreview_def shell_pushd_def shell_popd_def
  ghClient_release_def glClient_release_def v_setLatestVersion_def v_bump_def setRuntimeOptions_details_def
  start_def validate_clients_def resolve_version_def generateAndPreviewChangelog_def
  changelog_before_bump_def prompt_for_version_def validate_version_def register_reset_def bump_def
  changelog_after_bump_def stage_def release_git_def release_github_def github_steps_def
  release_gitlab_def release_wrap_up_def finish_def handle_error_def

lemma otpCallback_cases:
  obtains (interactive) "sc_isInteractive sc"
      and "otpCallback env sc = Some (\<lambda>task. prompt_show env True (Val ''otp'') task)"
    | (unattended) "\<not> sc_isInteractive sc" and "otpCallback env sc = None"
  by (cases "sc_isInteractive sc") (simp_all add: otpCallback_def)

text \<open>
  A publish with the callback of line 169, or with none: what holds for its commands,
  its log lines, the prompt for the password and the flag holds for all it does,
  however often it is retried.
\<close>

lemma preserves_publish:
  assumes R: "steady R"
    and cmd: "\<And>a. admits R (Shell_run (publish_command env this a))"
    and dbg: "\<And>e. admits R (Debug e)"
    and warn: "\<And>m. admits R (Log_warn m)"
    and ask: "admits R (Prompt (Val ''otp''))"
    and flag: "\<And>w. R w (w\<lparr>isPublished := (isPublished w)(npm_ref this := True)\<rparr>)"
    and cb: "arg_otpCallback args = otpCallback env sc"
  shows "preserves R (publish n env this args)"
  using cb
proof (induction n arbitrary: args)
  case 0
  show ?case
  proof (cases rule: otpCallback_cases [of sc env])
    case interactive
    with 0 show ?thesis
      unfolding publish.simps publish_body_def pipeline_defs
      by (simp only: option.case) (intro preserves_intros R cmd dbg warn ask flag)
  next
    case unattended
    with 0 show ?thesis
      unfolding publish.simps publish_body_def pipeline_defs
      by (simp only: option.case) (intro preserves_intros R cmd dbg warn ask flag)
  qed
next
  case (Suc n)
  have "\<And>otp. arg_otpCallback (retry_args this args otp) = otpCallback env sc"
    using Suc.prems by (simp add: retry_args_def)
  note ih = Suc.IH [OF this]
  show ?case
  proof (cases rule: otpCallback_cases [of sc env])
    case interactive
    with Suc.prems show ?thesis
      unfolding publish.simps publish_body_def pipeline_defs
      by (simp only: option.case) (intro preserves_intros R cmd dbg warn ask flag ih)
  next
    case unattended
    with Suc.prems show ?thesis
      unfolding publish.simps publish_body_def pipeline_defs
      by (simp only: option.case) (intro preserves_intros R cmd dbg warn ask flag ih)
  qed
qed

lemma preserves_release_npm:
  assumes R: "steady R"
    and cmd: "\<And>a. admits R (Shell_run (publish_command env (cs_npmClient cs) a))"
    and dbg: "\<And>e. admits R (Debug e)"
    and warn: "\<And>m. admits R (Log_warn m)"
    and ask: "\<And>p. admits R (Prompt p)"
    and flag: "\<And>w. R w (w\<lparr>isPublished := (isPublished w)(npm_ref (cs_npmClient cs) := True)\<rparr>)"
  shows "preserves R (release_npm fuel env sc cs)"
proof -
  have "preserves R (publish fuel env (cs_npmClient cs)
      \<lparr>arg_tag = Undefined, arg_version = sc_version sc, arg_isPreRelease = sc_isPreRelease sc,
       arg_otp = Undefined, arg_otpCallback = otpCallback env sc\<rparr>)"
    by (rule preserves_publish [where sc = sc]) (simp_all add: assms)
  then show ?thesis
    unfolding release_npm_def pipeline_defs Let_def
    by (intro preserves_intros R ask)
qed

section \<open>The working directory\<close>

lemma same_dirs_release: "preserves same_dirs (release fuel env sc cs)"
  unfolding release_def pipeline_defs Let_def
  by (intro preserves_intros preserves_release_npm steady_same_dirs admits_same_dirs)
     (simp_all add: same_dirs_def)

lemma same_dirs_phases:
  "preserves same_dirs (start env opts)"
  "preserves same_dirs (validate_clients env opts)"
  "preserves same_dirs (resolve_version env opts)"
  "preserves same_dirs (changelog_before_bump env opts)"
  "preserves same_dirs (prompt_for_version env opts)"
  "preserves same_dirs (validate_version env)"
  "preserves same_dirs (register_reset opts)"
  "preserves same_dirs (bump env opts)"
  "preserves same_dirs (changelog_after_bump env opts c)"
  "preserves same_dirs (stage env opts)"
  "preserves same_dirs (finish env opts c l v)"
  "preserves same_dirs (handle_error e)"
  unfolding pipeline_defs Let_def
  by (intro preserves_intros steady_same_dirs admits_same_dirs; simp add: same_dirs_def)+


section \<open>Properties of the npm client\<close>

lemma publish_unfold:
  "publish n env this args w =
     publish_body (case n of 0 \<Rightarrow> (\<lambda>_ _. None) | Suc m \<Rightarrow> publish m env this) env this args w"
  by (cases n) simp_all

text \<open>
  C5.  A publish on a package whose options mark it private logs the warning and resolves:
  whatever the arguments, the callback and the number of retries allowed, the promise
  resolves to \<open>undefined\<close>, and the warning is all that happened: no shell command was
  run and no flag was touched.
\<close>

theorem publish_private_skips:
  assumes "npm_private (npm_opts this)"
  shows "publish n env this args w =
           Some (Inr V_undefined, w\<lparr>events := events w @ [Log_warn ''Skip publish: package is private.'']\<rparr>)"
  using assms
  by (simp add: publish_unfold publish_body_def await_def log_warn_def emit_def resolve_def)

theorem publish_private_skips_witness:
  "npm_private (npm_opts private_client) \<and>
   publish 0 quiet_env private_client plain_args world0 =
     Some (Inr V_undefined, world0\<lparr>events := [Log_warn ''Skip publish: package is private.'']\<rparr>)"
  using publish_private_skips [of private_client 0 quiet_env plain_args world0]
  by (simp add: private_client_def my_package_def world0_def)


lemma publish_rejected:
  assumes "\<not> npm_private (npm_opts this)"
    and "shell_result env (publish_command env this args) (events w) = Some err"
  shows "publish_body self env this args w =
           (if regex_test ''one-time pass'' (toString err) then
              (case arg_otpCallback args of
                 Some cb \<Rightarrow> cb (\<lambda>otp. self (retry_args this args otp)) (after_rejection env this args err w)
               | None \<Rightarrow> Some (Inl err, after_rejection env this args err w))
            else Some (Inl err, after_rejection env this args err w))"
  using assms
  by (simp add: publish_body_def catch_def await_def shell_run_def debug_def emit_def run_if_def
      log_warn_def throw_def resolve_def after_rejection_def Let_def split: option.splits)

lemma publish_accepted:
  assumes "\<not> npm_private (npm_opts this)"
    and "shell_result env (publish_command env this args) (events w) = None"
  shows "publish_body self env this args w =
           Some (Inr V_undefined,
                 w\<lparr>events := events w @ [Shell_run (publish_command env this args)],
                   isPublished := (isPublished w)(npm_ref this := True)\<rparr>)"
  using assms
  by (simp add: publish_body_def catch_def await_def shell_run_def set_isPublished_def update_def resolve_def Let_def)

text \<open>
  C1.  A publish whose command is rejected with an error that reads \<open>one-time pass\<close>:
  \<^item> with a callback, the outcome is the callback's, called once with the task that
    publishes again with the password it is given and the same tag, version, pre-release
    flag and callback;
  \<^item> so with a callback that obtains a password and runs the task once, the outcome is
    that of this one further publish, and when the registry accepts it the invocation
    resolves, with the flag set and exactly one more command run;
  \<^item> without a callback the promise rejects with the same error, and the rejected
    command is the only one that was run.
\<close>

theorem publish_otp_retry:
  assumes "\<not> npm_private (npm_opts this)"
    and "shell_result env (publish_command env this args) (events w) = Some err"
    and "regex_test ''one-time pass'' (toString err)"
  shows "(\<forall>cb. arg_otpCallback args = Some cb \<longrightarrow>
            publish (Suc n) env this args w =
              cb (\<lambda>otp. publish n env this (retry_args this args otp)) (after_rejection env this args err w))
       \<and> (\<forall>ask upd. arg_otpCallback args = Some (\<lambda>task w'. task (ask w') (upd w')) \<longrightarrow>
            (let w1 = after_rejection env this args err w; again = retry_args this args (ask w1) in
             arg_tag again = tag_param this args \<and> arg_version again = arg_version args \<and>
             arg_isPreRelease again = arg_isPreRelease args \<and> arg_otp again = ask w1 \<and>
             publish (Suc n) env this args w = publish n env this again (upd w1) \<and>
             (shell_result env (publish_command env this again) (events (upd w1)) = None \<longrightarrow>
                publish (Suc n) env this args w =
                  Some (Inr V_undefined,
                        (upd w1)\<lparr>events := events (upd w1) @ [Shell_run (publish_command env this again)],
                          isPublished := (isPublished (upd w1))(npm_ref this := True)\<rparr>))))
       \<and> (arg_otpCallback args = None \<longrightarrow>
            publish n env this args w =
              Some (Inl err, w\<lparr>events := events w @ [Shell_run (publish_command env this args), Debug err]
                      @ (if not_nullish (otp_param this args)
                         then [Log_warn ''The provided OTP is incorrect or has expired.''] else [])\<rparr>))"
proof (intro conjI allI impI)
  fix cb assume "arg_otpCallback args = Some cb"
  then show "publish (Suc n) env this args w =
      cb (\<lambda>otp. publish n env this (retry_args this args otp)) (after_rejection env this args err w)"
    using assms by (simp add: publish_rejected)
next
  fix ask upd
  assume cb: "arg_otpCallback args = Some (\<lambda>task w'. task (ask w') (upd w'))"
  define w1 where "w1 = after_rejection env this args err w"
  define again where "again = retry_args this args (ask w1)"
  have step: "publish (Suc n) env this args w = publish n env this again (upd w1)"
    using assms cb by (simp add: publish_rejected w1_def again_def)
  have priv: "\<not> npm_private (npm_opts this)" by (rule assms(1))
  have ok: "shell_result env (publish_command env this again) (events (upd w1)) = None \<Longrightarrow>
      publish n env this again (upd w1) =
        Some (Inr V_undefined,
              (upd w1)\<lparr>events := events (upd w1) @ [Shell_run (publish_command env this again)],
                isPublished := (isPublished (upd w1))(npm_ref this := True)\<rparr>)"
    by (subst publish_unfold) (simp add: publish_accepted [OF priv])
  show "let w1 = after_rejection env this args err w; again = retry_args this args (ask w1) in
        arg_tag again = tag_param this args \<and> arg_version again = arg_version args \<and>
        arg_isPreRelease again = arg_isPreRelease args \<and> arg_otp again = ask w1 \<and>
        publish (Suc n) env this args w = publish n env this again (upd w1) \<and>
        (shell_result env (publish_command env this again) (events (upd w1)) = None \<longrightarrow>
           publish (Suc n) env this args w =
             Some (Inr V_undefined,
                   (upd w1)\<lparr>events := events (upd w1) @ [Shell_run (publish_command env this again)],
                     isPublished := (isPublished (upd w1))(npm_ref this := True)\<rparr>))"
    unfolding Let_def w1_def [symmetric] again_def [symmetric]
    using step ok by (simp add: again_def retry_args_def)
next
  assume "arg_otpCallback args = None"
  then show "publish n env this args w =
      Some (Inl err, w\<lparr>events := events w @ [Shell_run (publish_command env this args), Debug err]
              @ (if not_nullish (otp_param this args)
                 then [Log_warn ''The provided OTP is incorrect or has expired.''] else [])\<rparr>)"
    using assms by (simp add: publish_unfold publish_rejected after_rejection_def)
qed

theorem publish_otp_retry_witness:
  "\<not> npm_private (npm_opts public_client) \<and>
   shell_result otp_env (publish_command otp_env public_client otp_args) (events world0) = Some otp_error \<and>
   regex_test ''one-time pass'' (toString otp_error) \<and>
   publish (Suc 0) otp_env public_client otp_args world0 =
     Some (Inr V_undefined,
           world0\<lparr>events := [Shell_run ''npm publish . --tag latest   '', Debug otp_error,
                               Prompt (Val ''otp''), Shell_run ''npm publish . --tag latest  --otp 123456 ''],
                   isPublished := (\<lambda>t. False)(Primary := True)\<rparr>)"
proof -
  have h1: "\<not> npm_private (npm_opts public_client)"
    by (simp add: public_client_def my_package_def)
  have h2: "shell_result otp_env (publish_command otp_env public_client otp_args) (events world0) = Some otp_error"
    by (simp add: otp_env_def quiet_env_def world0_def)
  have h3: "regex_test ''one-time pass'' (toString otp_error)"
    by (simp add: otp_error_def error_toString_def)
  have cb: "arg_otpCallback otp_args =
      Some (\<lambda>task w'. task ((\<lambda>_. Val ''123456'') w') ((\<lambda>w. w\<lparr>events := events w @ [Prompt (Val ''otp'')]\<rparr>) w'))"
    by (simp add: otp_args_def typing_callback_def)
  note retried = publish_otp_retry [OF h1 h2 h3, of 0, THEN conjunct2, THEN conjunct1, rule_format, OF cb]
  have cmd1: "publish_command otp_env public_client otp_args = ''npm publish . --tag latest   ''"
    by (simp add: publish_command_def resolvedTag_def getTag_def tag_param_def otp_param_def
        otp_args_def public_client_def my_package_def DEFAULT_TAG_def)
  have cmd2: "publish_command otp_env public_client (retry_args public_client otp_args (Val ''123456''))
      = ''npm publish . --tag latest  --otp 123456 ''"
    by (simp add: publish_command_def resolvedTag_def getTag_def tag_param_def otp_param_def retry_args_def
        otp_args_def public_client_def my_package_def DEFAULT_TAG_def)
  have nn: "\<not> not_nullish (otp_param public_client otp_args)"
    by (simp add: otp_param_def otp_args_def public_client_def my_package_def)
  have ref: "npm_ref public_client = Primary"
    by (simp add: public_client_def)
  define w1 where "w1 = after_rejection otp_env public_client otp_args otp_error world0"
  define w2 where "w2 = w1\<lparr>events := events w1 @ [Prompt (Val ''otp'')]\<rparr>"
  define again where "again = retry_args public_client otp_args (Val ''123456'')"
  have r: "shell_result otp_env (publish_command otp_env public_client again) (events w2) = None"
    by (simp add: otp_env_def quiet_env_def w2_def)
  have eq: "publish (Suc 0) otp_env public_client otp_args world0 =
      Some (Inr V_undefined,
            w2\<lparr>events := events w2 @ [Shell_run (publish_command otp_env public_client again)],
              isPublished := (isPublished w2)(npm_ref public_client := True)\<rparr>)"
    using retried r unfolding Let_def w1_def w2_def again_def by blast
  have W: "w2\<lparr>events := events w2 @ [Shell_run (publish_command otp_env public_client again)],
              isPublished := (isPublished w2)(npm_ref public_client := True)\<rparr> =
           world0\<lparr>events := [Shell_run ''npm publish . --tag latest   '', Debug otp_error,
                               Prompt (Val ''otp''), Shell_run ''npm publish . --tag latest  --otp 123456 ''],
                   isPublished := (\<lambda>t. False)(Primary := True)\<rparr>"
    by (simp add: w2_def w1_def again_def after_rejection_def cmd1 cmd2 nn ref world0_def)
  from h1 h2 h3 eq [unfolded W] show ?thesis by blast
qed

lemma publish_runs_command:
  assumes "\<not> npm_private (npm_opts this)" and "arg_otpCallback args = None"
  shows "\<exists>r w'. publish n env this args w = Some (r, w') \<and>
           take (Suc (length (events w))) (events w') = events w @ [Shell_run (publish_command env this args)]"
proof (cases "shell_result env (publish_command env this args) (events w)")
  case None
  with assms show ?thesis
    by (simp add: publish_unfold publish_accepted)
next
  case (Some err)
  with assms show ?thesis
    by (simp add: publish_unfold publish_rejected after_rejection_def)
qed



text \<open>
  C10.  A pre-release flag on a version without prerelease components, or without a
  version at all: the tag is resolved all the same, to the tag that was supplied, and to
  \<open>latest\<close> when none was.
\<close>

theorem dist_tag_fallback:
  assumes "\<not> truthy version \<or> prerelease env (interp version) = None \<or> prerelease env (interp version) = Some []"
  shows "getTag env tag version True = default_to (Val ''latest'') tag
       \<and> getTag env (Val t) version True = Val t
       \<and> getTag env Undefined version True = Val ''latest''
       \<and> (arg_version args = version \<and> arg_isPreRelease args \<longrightarrow>
            resolvedTag env this args =
              default_to (Val ''latest'') (default_to (npm_tag (npm_opts this)) (arg_tag args)))"
  using assms
  by (auto simp add: getTag_def resolvedTag_def tag_param_def DEFAULT_TAG_def Let_def)

theorem dist_tag_fallback_witness:
  "prerelease semver_env (interp (Val ''1.1.0'')) = None \<and>
   getTag semver_env (Val ''next'') (Val ''1.1.0'') True = Val ''next'' \<and>
   getTag semver_env Undefined Undefined True = Val ''latest'' \<and>
   arg_version odd_args = Val ''1.1.0'' \<and> arg_isPreRelease odd_args \<and>
   resolvedTag semver_env untagged_client odd_args = Val ''latest''"
proof -
  have none: "prerelease semver_env (interp (Val ''1.1.0'')) = None"
    by (simp add: semver_env_def semver_prerelease_def is_numeric_def)
  have odd: "arg_version odd_args = Val ''1.1.0'' \<and> arg_isPreRelease odd_args"
    by (simp add: odd_args_def)
  have "getTag semver_env (Val ''next'') (Val ''1.1.0'') True = Val ''next''"
    using dist_tag_fallback [of "Val ''1.1.0''" semver_env] none by blast
  moreover have "getTag semver_env Undefined Undefined True = Val ''latest''"
    using dist_tag_fallback [of Undefined semver_env] by simp
  moreover have "resolvedTag semver_env untagged_client odd_args = Val ''latest''"
    using dist_tag_fallback [of "Val ''1.1.0''" semver_env _ _ odd_args untagged_client] none odd
    by (simp add: untagged_client_def odd_args_def my_package_def)
  ultimately show ?thesis using none odd by simp
qed

section \<open>The distribution repository and the working directory\<close>

lemma before_all_append:
  "before_all a Q (xs @ ys) = (if a \<in> set xs then before_all a Q xs else list_all (\<lambda>e. \<not> Q e) xs \<and> before_all a Q ys)"
  by (induction xs) auto

lemma before_all_none: "list_all (\<lambda>e. \<not> Q e) xs \<Longrightarrow> before_all a Q xs"
  by (induction xs) auto

lemma before_all_member: "before_all a Q xs \<Longrightarrow> a \<notin> set xs \<Longrightarrow> list_all (\<lambda>e. \<not> Q e) xs"
  by (induction xs) auto

lemma steady_ordered: "steady (ordered a Q)"
  unfolding steady_def ordered_def
proof (intro conjI allI impI)
  fix w show "\<exists>tr. events w = events w @ tr \<and> before_all a Q tr"
    by (rule exI [of _ "[]"]) simp
next
  fix x y z
  assume "\<exists>tr. events y = events x @ tr \<and> before_all a Q tr"
    and "\<exists>tr. events z = events y @ tr \<and> before_all a Q tr"
  then obtain t1 t2 where "events y = events x @ t1" "before_all a Q t1"
    "events z = events y @ t2" "before_all a Q t2" by blast
  then have "events z = events x @ (t1 @ t2) \<and> before_all a Q (t1 @ t2)"
    by (auto simp: before_all_append dest: before_all_member)
  then show "\<exists>tr. events z = events x @ tr \<and> before_all a Q tr" by blast
qed

lemma admits_ordered: "ev = a \<or> \<not> Q ev \<Longrightarrow> admits (ordered a Q) ev"
  by (auto simp: admits_def ordered_def)

lemma ordered_same_events: "events w' = events w \<Longrightarrow> ordered a Q w w'"
  by (simp add: ordered_def)

lemma ordered_added: "ordered a Q w w' \<Longrightarrow> events w' = events w @ added w w' \<and> before_all a Q (added w w')"
  by (auto simp: ordered_def added_def)

lemma ordered_from: "events w1 = events w @ [a] \<Longrightarrow> grows P w1 w' \<Longrightarrow> ordered a Q w w'"
  by (auto simp: ordered_def grows_def)

text \<open>Whatever a run does, it only adds to the trace.\<close>

lemma grows_release: "preserves (grows (\<lambda>_. True)) (release fuel env sc cs)"
  unfolding release_def pipeline_defs Let_def
  by (intro preserves_intros preserves_release_npm steady_grows admits_grows)
     (simp_all add: grows_same_events)

lemma invoke_dirs: "invoke env c w = Some (r, w') \<Longrightarrow> dirs w' = dirs w"
  by (auto simp: invoke_def Let_def split: sum.splits)

lemma invoke_events: "invoke env c w = Some (r, w') \<Longrightarrow> events w' = events w @ [Call c]"
  by (auto simp: invoke_def Let_def split: sum.splits)

lemma run_dirs: "run env c w = Some (r, w') \<Longrightarrow> dirs w' = dirs w"
  by (auto simp: run_def Let_def split: option.splits)

lemma shell_pushd_dirs:
  "shell_pushd env d w = Some (r, w') \<Longrightarrow>
     (case r of Inr _ \<Rightarrow> dirs w' = d # dirs w | Inl _ \<Rightarrow> dirs w' = dirs w)"
  by (auto simp: shell_pushd_def update_def invoke_def Let_def elim!: await_cases split: sum.splits)

lemma shell_pushd_events:
  "shell_pushd env d w = Some (r, w') \<Longrightarrow> events w' = events w @ [Call (Shell_pushd d)]"
  by (auto simp: shell_pushd_def update_def invoke_def Let_def elim!: await_cases split: sum.splits)

lemma shell_popd_dirs:
  "shell_popd env w = Some (r, w') \<Longrightarrow>
     (case r of Inr _ \<Rightarrow> dirs w' = tl (dirs w) | Inl _ \<Rightarrow> dirs w' = dirs w)"
  by (auto simp: shell_popd_def update_def invoke_def Let_def elim!: await_cases split: sum.splits)

lemma release_distribution_dirs:
  assumes "release_distribution fuel env sc opts w = Some (r, w')"
  shows "left_in (opt_dist_stageDir opts) (dirs w) r w'"
proof (cases "truthy (dist_repo opts)")
  case False
  with assms show ?thesis
    by (simp add: release_distribution_def resolve_def left_in_def)
next
  case True
  note rel = preservesD [OF same_dirs_release, unfolded same_dirs_def]
  from assms True show ?thesis
    unfolding release_distribution_def Let_def left_in_def
    by (auto elim!: await_cases dest!: shell_pushd_dirs shell_popd_dirs invoke_dirs run_dirs rel
        simp: resolve_def)
qed

lemma await_left_in:
  assumes "await m f w = Some (r, w')"
    and "preserves same_dirs m"
    and "\<And>a w1. f a w1 = Some (r, w') \<Longrightarrow> left_in s (dirs w1) r w'"
  shows "left_in s (dirs w) r w'"
  using assms(1)
proof (cases rule: await_cases)
  case (thrown e)
  with assms(2) show ?thesis
    by (auto simp: left_in_def same_dirs_def dest: preservesD)
next
  case (continued a w1)
  with assms(2) have "dirs w1 = dirs w"
    by (auto simp: same_dirs_def dest: preservesD)
  with assms(3) [OF continued(2)] show ?thesis by simp
qed

lemma finish_left_in:
  assumes "await (release_distribution fuel env sc opts) (\<lambda>_. finish env opts c l v) w = Some (r, w')"
  shows "left_in (opt_dist_stageDir opts) (dirs w) r w'"
  using assms
proof (cases rule: await_cases)
  case (thrown e)
  with release_distribution_dirs [OF thrown(1)] show ?thesis
    by (auto simp: left_in_def)
next
  case (continued a w1)
  from release_distribution_dirs [OF continued(1)] have "dirs w1 = dirs w"
    by (simp add: left_in_def)
  moreover have "dirs w' = dirs w1"
    using preservesD [OF same_dirs_phases(11) continued(2)] by (simp add: same_dirs_def)
  ultimately show ?thesis by (simp add: left_in_def)
qed

lemma runTasks_try_dirs:
  assumes "runTasks_try fuel env opts w = Some (r, w')"
  shows "left_in (opt_dist_stageDir opts) (dirs w) r w'"
  using assms unfolding runTasks_try_def after_validation_def perform_def Let_def
  by (elim await_left_in finish_left_in) (rule same_dirs_phases same_dirs_release)+

lemma handle_error_throws:
  "handle_error e w = Some (r, w') \<Longrightarrow> r = Inl e"
  unfolding handle_error_def pipeline_defs
  by (auto simp: emit_def throw_def elim!: await_cases split: if_splits)

lemma runTasks_dirs:
  assumes "runTasks fuel env opts w = Some (r, w')"
  shows "left_in (opt_dist_stageDir opts) (dirs w) r w'"
  using assms unfolding runTasks_def
proof (cases rule: catch_cases)
  case (caught e w1)
  have "dirs w' = dirs w1"
    using preservesD [OF same_dirs_phases(12) caught(2)] by (simp add: same_dirs_def)
  moreover have "r = Inl e" using caught(2) by (rule handle_error_throws)
  moreover note runTasks_try_dirs [OF caught(1)]
  ultimately show ?thesis by (auto simp: left_in_def)
next
  case (passed a)
  with runTasks_try_dirs show ?thesis by blast
qed

text \<open>No call on the clients of the distribution repository comes before \<open>pushd\<close>.\<close>

lemma ordered_release_distribution:
  "preserves (ordered (Call (Shell_pushd (opt_dist_stageDir opts))) Q) (release_distribution fuel env sc opts)"
proof (cases "truthy (dist_repo opts)")
  case False
  then show ?thesis
    by (simp add: release_distribution_def preserves_resolve steady_ordered)
next
  case True
  let ?rest = "\<lambda>u::unit.
         await (invoke env GitDist_init) (\<lambda>_.
         await (invoke env GitDist_handleTagOptions) (\<lambda>_.
         await (invoke env GetDistRepoClients) (\<lambda>_.
         await (release fuel env sc (opt_distribution opts)) (\<lambda>_.
         await (shell_popd env) (\<lambda>_.
         await (run env (Val (''!rm -rf '' @ opt_dist_stageDir opts))) (\<lambda>_. resolve ()))))))"
  have rest: "preserves (grows (\<lambda>_. True)) (?rest u)" for u
    unfolding pipeline_defs
    by (intro preserves_intros grows_release steady_grows admits_grows) (simp_all add: grows_same_events)
  show ?thesis
    unfolding preserves_def
  proof (intro allI impI)
    fix w r w'
    assume "release_distribution fuel env sc opts w = Some (r, w')"
    with True have "await (shell_pushd env (opt_dist_stageDir opts)) ?rest w = Some (r, w')"
      by (simp add: release_distribution_def Let_def)
    then show "ordered (Call (Shell_pushd (opt_dist_stageDir opts))) Q w w'"
    proof (cases rule: await_cases)
      case (thrown e)
      then show ?thesis
        by (auto simp: ordered_def dest!: shell_pushd_events)
    next
      case (continued a w1)
      from continued(1) have "events w1 = events w @ [Call (Shell_pushd (opt_dist_stageDir opts))]"
        by (rule shell_pushd_events)
      moreover have "grows (\<lambda>_. True) w1 w'"
        using rest continued(2) by (rule preservesD)
      ultimately show ?thesis by (rule ordered_from)
    qed
  qed
qed

lemma ordered_release_primary:
  assumes "cs_target cs = Primary"
  shows "preserves (ordered a (on_target Distribution)) (release fuel env sc cs)"
  unfolding release_def pipeline_defs Let_def
  by (intro preserves_intros preserves_release_npm steady_ordered admits_ordered)
     (simp_all add: ordered_same_events assms)

lemma ordered_phases:
  "preserves (ordered a (on_target Distribution)) (start env opts)"
  "preserves (ordered a (on_target Distribution)) (validate_clients env opts)"
  "preserves (ordered a (on_target Distribution)) (resolve_version env opts)"
  "preserves (ordered a (on_target Distribution)) (changelog_before_bump env opts)"
  "preserves (ordered a (on_target Distribution)) (prompt_for_version env opts)"
  "preserves (ordered a (on_target Distribution)) (validate_version env)"
  "preserves (ordered a (on_target Distribution)) (register_reset opts)"
  "preserves (ordered a (on_target Distribution)) (bump env opts)"
  "preserves (ordered a (on_target Distribution)) (changelog_after_bump env opts c)"
  "preserves (ordered a (on_target Distribution)) (stage env opts)"
  "preserves (ordered a (on_target Distribution)) (finish env opts c l v)"
  "preserves (ordered a (on_target Distribution)) (handle_error e)"
  unfolding pipeline_defs Let_def
  by (intro preserves_intros steady_ordered admits_ordered; simp add: ordered_same_events)+

lemma ordered_runTasks:
  assumes "cs_target (opt_primary opts) = Primary"
  shows "preserves (ordered (Call (Shell_pushd (opt_dist_stageDir opts))) (on_target Distribution))
           (runTasks fuel env opts)"
  unfolding runTasks_def runTasks_try_def after_validation_def perform_def Let_def
  by (intro preserves_catch preserves_await steady_ordered ordered_phases
      ordered_release_primary ordered_release_distribution assms)





section \<open>The handler at the top\<close>

lemma handle_error_run:
  "handle_error err w =
     Some (Inl err, w\<lparr>events := events w @ Metrics_exception err #
             (if instanceof_ReleaseItError err
              then [Log_error (if message err \<noteq> [] then message err else toString err), Debug err]
              else [Console_error err])\<rparr>)"
  by (simp add: handle_error_def await_def emit_def log_error_def debug_def throw_def)

section \<open>The GitHub release and its assets\<close>

lemmas step_defs = github_steps_def step_def prompt_show_def spinner_show_def ghClient_release_def
  invoke_def await_def emit_def reading_def update_def resolve_def Let_def

text \<open>
  C7.  In interactive mode the release and the upload are one step behind one prompt:
  declined, nothing is done; confirmed, the release is created and the assets are
  uploaded exactly when the release returned something truthy, whatever
  \<open>github.assets\<close> says; and with \<open>github.release\<close> off there is no prompt and no
  upload.  In unattended mode they are two steps with a toggle each: with
  \<open>github.assets\<close> off a release that succeeded is not followed by an upload, and with
  \<open>github.release\<close> off the assets are uploaded all the same.
\<close>

theorem github_release_and_assets:
  assumes "cs_target cs = t" and "cs_github cs = g"
  shows "(sc_isInteractive sc \<and> github_release g \<and>
            user_answer env (Val ''ghRelease'') (events w @ [Prompt (Val ''ghRelease'')]) = None \<longrightarrow>
          github_steps env sc cs w =
            Some (Inr V_undefined, w\<lparr>events := events w @ [Prompt (Val ''ghRelease'')]\<rparr>))
       \<and> (sc_isInteractive sc \<and> github_release g \<and>
            user_answer env (Val ''ghRelease'') (events w @ [Prompt (Val ''ghRelease'')]) = Some a \<and>
            call_outcome env (GitHub_release t) (events w @ [Prompt (Val ''ghRelease'')]) = Inr v \<and>
            \<not> truthy_value v \<longrightarrow>
          github_steps env sc cs w =
            Some (Inr v, w\<lparr>events := events w @ [Prompt (Val ''ghRelease''), Call (GitHub_release t)],
                           github_isReleased := (github_isReleased w)(t := True)\<rparr>))
       \<and> (sc_isInteractive sc \<and> github_release g \<and>
            user_answer env (Val ''ghRelease'') (events w @ [Prompt (Val ''ghRelease'')]) = Some a \<and>
            call_outcome env (GitHub_release t) (events w @ [Prompt (Val ''ghRelease'')]) = Inr v \<and>
            truthy_value v \<longrightarrow>
          github_steps env sc cs w =
            Some (call_outcome env (GitHub_uploadAssets t)
                    (events w @ [Prompt (Val ''ghRelease''), Call (GitHub_release t)]),
                  w\<lparr>events := events w @ [Prompt (Val ''ghRelease''), Call (GitHub_release t),
                                           Call (GitHub_uploadAssets t)],
                    github_isReleased := (github_isReleased w)(t := True)\<rparr>))
       \<and> (sc_isInteractive sc \<and> \<not> github_release g \<longrightarrow>
          github_steps env sc cs w = Some (Inr V_undefined, w))
       \<and> (\<not> sc_isInteractive sc \<and> github_release g \<and> \<not> github_assets g \<and>
            call_outcome env (GitHub_release t) (events w) = Inr v \<longrightarrow>
          github_steps env sc cs w =
            Some (Inr V_undefined, w\<lparr>events := events w @ [Call (GitHub_release t)],
                                     github_isReleased := (github_isReleased w)(t := True)\<rparr>))
       \<and> (\<not> sc_isInteractive sc \<and> github_release g \<and> github_assets g \<and>
            call_outcome env (GitHub_release t) (events w) = Inr v \<longrightarrow>
          github_steps env sc cs w =
            Some (call_outcome env (GitHub_uploadAssets t) (events w @ [Call (GitHub_release t)]),
                  w\<lparr>events := events w @ [Call (GitHub_release t), Call (GitHub_uploadAssets t)],
                    github_isReleased := (github_isReleased w)(t := True)\<rparr>))
       \<and> (\<not> sc_isInteractive sc \<and> \<not> github_release g \<and> github_assets g \<longrightarrow>
          github_steps env sc cs w =
            Some (call_outcome env (GitHub_uploadAssets t) (events w),
                  w\<lparr>events := events w @ [Call (GitHub_uploadAssets t)]\<rparr>))"
  using assms
  by (auto simp: step_defs split: sum.splits)

theorem github_release_and_assets_witness:
  "github_steps releasing_env interactive_scope github_clients world0 =
     Some (Inr V_undefined,
           world0\<lparr>events := [Prompt (Val ''ghRelease''), Call (GitHub_release Primary),
                               Call (GitHub_uploadAssets Primary)],
                   github_isReleased := (\<lambda>t. False)(Primary := True)\<rparr>) \<and>
   github_steps releasing_env unattended_scope github_clients world0 =
     Some (Inr V_undefined,
           world0\<lparr>events := [Call (GitHub_release Primary)],
                   github_isReleased := (\<lambda>t. False)(Primary := True)\<rparr>)"
proof -
  have cs: "cs_target github_clients = Primary"
    and g: "cs_github github_clients =
             \<lparr>github_release = True, github_releaseNotes = Null, github_assets = False\<rparr>"
    by (simp_all add: github_clients_def idle_clients_def)
  note facts = github_release_and_assets [OF cs g, where env = releasing_env and w = world0
      and v = "V_bool True" and a = Undefined]
  have "github_steps releasing_env interactive_scope github_clients world0 =
     Some (Inr V_undefined,
           world0\<lparr>events := [Prompt (Val ''ghRelease''), Call (GitHub_release Primary),
                               Call (GitHub_uploadAssets Primary)],
                   github_isReleased := (\<lambda>t. False)(Primary := True)\<rparr>)"
    using facts [where sc = interactive_scope]
    by (simp add: interactive_scope_def releasing_env_def quiet_env_def world0_def)
  moreover have "github_steps releasing_env unattended_scope github_clients world0 =
     Some (Inr V_undefined,
           world0\<lparr>events := [Call (GitHub_release Primary)],
                   github_isReleased := (\<lambda>t. False)(Primary := True)\<rparr>)"
    using facts [where sc = unattended_scope]
    by (simp add: unattended_scope_def interactive_scope_def releasing_env_def quiet_env_def world0_def)
  ultimately show ?thesis by simp
qed

section \<open>The flag of the npm client\<close>

lemma accepted_append:
  "accepted env C h (xs @ ys) = (accepted env C h xs \<or> accepted env C (h @ xs) ys)"
  by (induction xs arbitrary: h) auto

lemma accepted_none: "list_all (\<lambda>ev. \<not> is_shell_run ev) tr \<Longrightarrow> \<not> accepted env C h tr"
  by (induction tr arbitrary: h) (auto split: event.splits)

lemma steady_published_iff: "steady (published_iff env ref)"
  unfolding steady_def published_iff_def
proof (intro conjI allI impI)
  fix w
  show "\<exists>tr. events w = events w @ tr \<and>
      (\<forall>t. isPublished w t = (isPublished w t \<or> t = ref \<and> accepted env is_publish (events w) tr))"
    by (rule exI [of _ "[]"]) simp
next
  fix x y z
  assume "\<exists>tr. events y = events x @ tr \<and>
      (\<forall>t. isPublished y t = (isPublished x t \<or> t = ref \<and> accepted env is_publish (events x) tr))"
    and "\<exists>tr. events z = events y @ tr \<and>
      (\<forall>t. isPublished z t = (isPublished y t \<or> t = ref \<and> accepted env is_publish (events y) tr))"
  then obtain t1 t2 where 1: "events y = events x @ t1"
    and 2: "\<forall>t. isPublished y t = (isPublished x t \<or> t = ref \<and> accepted env is_publish (events x) t1)"
    and 3: "events z = events y @ t2"
    and 4: "\<forall>t. isPublished z t = (isPublished y t \<or> t = ref \<and> accepted env is_publish (events y) t2)"
    by blast
  have "events z = events x @ (t1 @ t2)" using 1 3 by simp
  moreover have "\<forall>t. isPublished z t =
      (isPublished x t \<or> t = ref \<and> accepted env is_publish (events x) (t1 @ t2))"
    using 1 2 4 by (auto simp: accepted_append)
  ultimately show "\<exists>tr. events z = events x @ tr \<and>
      (\<forall>t. isPublished z t = (isPublished x t \<or> t = ref \<and> accepted env is_publish (events x) tr))"
    by blast
qed

lemma admits_published_iff: "\<not> is_shell_run ev \<Longrightarrow> admits (published_iff env ref) ev"
  unfolding admits_def published_iff_def
  by (intro allI exI [of _ "[ev]"]) (auto split: event.splits)

lemma published_iff_frame:
  "events w' = events w \<Longrightarrow> isPublished w' = isPublished w \<Longrightarrow> published_iff env ref w w'"
  unfolding published_iff_def by (intro exI [of _ "[]"]) simp

lemma is_publish_command: "is_publish (publish_command env this args)"
  by (simp add: is_publish_def publish_command_def Let_def)

lemma published_iff_rejected:
  assumes "shell_result env (publish_command env this args) (events w) = Some err"
  shows "published_iff env ref w (after_rejection env this args err w)"
  unfolding published_iff_def after_rejection_def
  using assms
  by (intro exI [of _ "[Shell_run (publish_command env this args), Debug err]
          @ (if regex_test ''one-time pass'' (toString err) \<and> not_nullish (otp_param this args)
             then [Log_warn ''The provided OTP is incorrect or has expired.''] else [])"])
     simp

lemma publish_skipped:
  assumes "npm_private (npm_opts this)"
  shows "publish_body self env this args w =
           Some (Inr V_undefined, w\<lparr>events := events w @ [Log_warn ''Skip publish: package is private.'']\<rparr>)"
  using assms
  by (simp add: publish_body_def await_def log_warn_def emit_def resolve_def)

lemma published_iff_body:
  assumes cb: "arg_otpCallback args = otpCallback env sc"
    and self: "\<And>otp. preserves (published_iff env (npm_ref this)) (self (retry_args this args otp))"
  shows "preserves (published_iff env (npm_ref this)) (publish_body self env this args)"
  unfolding preserves_def
proof (intro allI impI)
  fix w r w'
  assume run: "publish_body self env this args w = Some (r, w')"
  let ?R = "published_iff env (npm_ref this)"
  show "?R w w'"
  proof (cases "npm_private (npm_opts this)")
    case True
    with run have "w' = w\<lparr>events := events w @ [Log_warn ''Skip publish: package is private.'']\<rparr>"
      by (simp add: publish_skipped)
    then show ?thesis
      using admits_published_iff [of "Log_warn ''Skip publish: package is private.''" env "npm_ref this"]
      by (simp add: admits_def)
  next
    case False
    show ?thesis
    proof (cases "shell_result env (publish_command env this args) (events w)")
      case None
      with run False have "w' = w\<lparr>events := events w @ [Shell_run (publish_command env this args)],
          isPublished := (isPublished w)(npm_ref this := True)\<rparr>"
        by (simp add: publish_accepted)
      then show ?thesis
        unfolding published_iff_def using None
        by (intro exI [of _ "[Shell_run (publish_command env this args)]"])
           (simp add: is_publish_command)
    next
      case (Some err)
      let ?w1 = "after_rejection env this args err w"
      have first: "?R w ?w1"
        using Some by (rule published_iff_rejected)
      have "?R ?w1 w'"
      proof (cases rule: otpCallback_cases [of sc env])
        case interactive
        show ?thesis
        proof (cases "regex_test ''one-time pass'' (toString err)")
          case True
          have "preserves ?R (prompt_show env True (Val ''otp'') (\<lambda>otp. self (retry_args this args otp)))"
            unfolding pipeline_defs
            by (intro preserves_intros self steady_published_iff admits_published_iff) simp_all
          moreover have "prompt_show env True (Val ''otp'') (\<lambda>otp. self (retry_args this args otp)) ?w1
              = Some (r, w')"
            using run False Some True cb interactive by (simp add: publish_rejected)
          ultimately show ?thesis by (rule preservesD)
        next
          case no: False
          with run False Some have "w' = ?w1"
            by (simp add: publish_rejected)
          then show ?thesis by (simp add: published_iff_frame)
        qed
      next
        case unattended
        with run False Some cb have "w' = ?w1"
          by (auto simp: publish_rejected split: if_splits)
        then show ?thesis by (simp add: published_iff_frame)
      qed
      with first show ?thesis
        by (rule steady_trans [OF steady_published_iff])
    qed
  qed
qed

lemma published_iff_publish:
  assumes cb: "arg_otpCallback args = otpCallback env sc"
  shows "preserves (published_iff env (npm_ref this)) (publish n env this args)"
  using cb
proof (induction n arbitrary: args)
  case 0
  then show ?case
    by (simp add: published_iff_body preserves_none)
next
  case (Suc n)
  have "\<And>otp. arg_otpCallback (retry_args this args otp) = otpCallback env sc"
    using Suc.prems by (simp add: retry_args_def)
  then show ?case
    using Suc.prems by (simp add: published_iff_body Suc.IH)
qed

lemma published_iff_release:
  "preserves (published_iff env (npm_ref (cs_npmClient cs))) (release fuel env sc cs)"
proof -
  have npm: "preserves (published_iff env (npm_ref (cs_npmClient cs))) (release_npm fuel env sc cs)"
    unfolding release_npm_def pipeline_defs Let_def
    by (intro preserves_intros published_iff_publish steady_published_iff admits_published_iff)
       simp_all
  show ?thesis
    unfolding release_def
    apply (intro preserves_await steady_published_iff npm)
    unfolding pipeline_defs Let_def
    by (intro preserves_intros steady_published_iff admits_published_iff;
        simp add: published_iff_frame)+
qed

text \<open>With the publish step disabled nothing of the npm client happens.\<close>

lemma steady_same_published: "steady same_published"
  by (simp add: steady_def same_published_def)

lemma admits_same_published: "admits same_published ev"
  by (simp add: admits_def same_published_def)

lemma disabled_release:
  assumes "\<not> npm_publish (npm_opts (cs_npmClient cs))"
  shows "preserves (grows (\<lambda>ev. \<not> publish_event ev)) (release fuel env sc cs)"
    and "preserves same_published (release fuel env sc cs)"
proof -
  have npm: "release_npm fuel env sc cs = resolve V_undefined"
    using assms by (simp add: release_npm_def step_def prompt_show_def spinner_show_def Let_def)
  show "preserves (grows (\<lambda>ev. \<not> publish_event ev)) (release fuel env sc cs)"
    unfolding release_def npm
    unfolding pipeline_defs Let_def
    by (intro preserves_intros steady_grows admits_grows; simp add: grows_same_events)
  show "preserves same_published (release fuel env sc cs)"
    unfolding release_def npm
    unfolding pipeline_defs Let_def
    by (intro preserves_intros steady_same_published admits_same_published; simp add: same_published_def)
qed

text \<open>On a private package the publish step runs no shell command.\<close>

lemma private_publish:
  assumes "npm_private (npm_opts this)"
  shows "preserves (grows (\<lambda>ev. \<not> is_shell_run ev)) (publish n env this args)"
    and "preserves same_published (publish n env this args)"
  using assms
  by (auto simp: preserves_def publish_unfold publish_skipped grows_def same_published_def)

lemma private_release:
  assumes "npm_private (npm_opts (cs_npmClient cs))"
  shows "preserves (grows (\<lambda>ev. \<not> is_shell_run ev)) (release fuel env sc cs)"
    and "preserves same_published (release fuel env sc cs)"
proof -
  show "preserves (grows (\<lambda>ev. \<not> is_shell_run ev)) (release fuel env sc cs)"
    unfolding release_def release_npm_def pipeline_defs Let_def
    by (intro preserves_intros steady_grows admits_grows private_publish assms;
        simp add: grows_same_events)
  show "preserves same_published (release fuel env sc cs)"
    unfolding release_def release_npm_def pipeline_defs Let_def
    by (intro preserves_intros steady_same_published admits_same_published private_publish assms;
        simp add: same_published_def)
qed

text \<open>The line with the package URL.\<close>

lemma steady_announces: "steady (announces line ref)"
  unfolding steady_def announces_def
proof (intro conjI allI impI)
  fix w
  show "\<exists>tr. events w = events w @ tr \<and> (Log_log line \<in> set tr \<longrightarrow> isPublished w ref)
      \<and> (isPublished w ref \<longrightarrow> isPublished w ref)"
    by (rule exI [of _ "[]"]) simp
next
  fix x y z
  assume "\<exists>tr. events y = events x @ tr \<and> (Log_log line \<in> set tr \<longrightarrow> isPublished y ref)
      \<and> (isPublished x ref \<longrightarrow> isPublished y ref)"
    and "\<exists>tr. events z = events y @ tr \<and> (Log_log line \<in> set tr \<longrightarrow> isPublished z ref)
      \<and> (isPublished y ref \<longrightarrow> isPublished z ref)"
  then obtain t1 t2 where "events y = events x @ t1" "Log_log line \<in> set t1 \<longrightarrow> isPublished y ref"
    "isPublished x ref \<longrightarrow> isPublished y ref" "events z = events y @ t2"
    "Log_log line \<in> set t2 \<longrightarrow> isPublished z ref" "isPublished y ref \<longrightarrow> isPublished z ref"
    by blast
  then have "events z = events x @ (t1 @ t2) \<and> (Log_log line \<in> set (t1 @ t2) \<longrightarrow> isPublished z ref)
      \<and> (isPublished x ref \<longrightarrow> isPublished z ref)"
    by auto
  then show "\<exists>tr. events z = events x @ tr \<and> (Log_log line \<in> set tr \<longrightarrow> isPublished z ref)
      \<and> (isPublished x ref \<longrightarrow> isPublished z ref)"
    by blast
qed

lemma admits_announces: "ev \<noteq> Log_log line \<Longrightarrow> admits (announces line ref) ev"
  unfolding admits_def announces_def
  by (intro allI exI [of _ "[ev]"]) simp

lemma announces_frame:
  "events w' = events w \<Longrightarrow> (isPublished w ref \<longrightarrow> isPublished w' ref) \<Longrightarrow> announces line ref w w'"
  unfolding announces_def by (intro exI [of _ "[]"]) simp

lemma announces_line:
  "preserves (announces line ref) (reading (\<lambda>w. run_if (isPublished w ref) (log_log line)))"
  unfolding preserves_def reading_def run_if_def log_log_def emit_def resolve_def announces_def
  by (auto split: if_splits intro: exI [of _ "[]"])

lemma announces_release:
  assumes "getReleaseUrl_github env (cs_target cs) \<noteq> getPackageUrl (cs_npmClient cs)"
    and "getReleaseUrl_gitlab env (cs_target cs) \<noteq> getPackageUrl (cs_npmClient cs)"
  shows "preserves (announces (package_line (cs_npmClient cs)) (npm_ref (cs_npmClient cs)))
           (release fuel env sc cs)"
proof -
  let ?R = "announces (package_line (cs_npmClient cs)) (npm_ref (cs_npmClient cs))"
  have wrap: "preserves ?R (release_wrap_up env cs)"
    unfolding release_wrap_up_def Let_def package_line_def [symmetric]
    apply (intro preserves_await steady_announces announces_line)
    unfolding pipeline_defs
    using assms
    by (intro preserves_intros steady_announces admits_announces; simp add: package_line_def)+
  have npm: "preserves ?R (release_npm fuel env sc cs)"
    by (rule preserves_release_npm)
       (simp_all add: steady_announces admits_announces announces_frame)
  show ?thesis
    unfolding release_def
    apply (intro preserves_await steady_announces npm wrap)
    unfolding pipeline_defs Let_def
    by (intro preserves_intros steady_announces admits_announces;
        simp add: announces_frame)+
qed

lemma published_iff_added:
  assumes "published_iff env ref w w'"
  shows "events w' = events w @ added w w'"
    and "isPublished w' t = (isPublished w t \<or> (t = ref \<and> accepted env is_publish (events w) (added w w')))"
proof -
  from assms obtain tr where tr: "events w' = events w @ tr"
    and flags: "\<forall>t. isPublished w' t = (isPublished w t \<or> (t = ref \<and> accepted env is_publish (events w) tr))"
    unfolding published_iff_def by blast
  have "added w w' = tr"
    by (simp add: added_def tr)
  with tr flags show "events w' = events w @ added w w'"
    and "isPublished w' t = (isPublished w t \<or> (t = ref \<and> accepted env is_publish (events w) (added w w')))"
    by simp_all
qed

text \<open>
  C8.  Over a release sequence, and over a publish, the flag of the npm client is set
  exactly if it was set before or a publish command was run and resolved; the flag of no
  other client changes.  With \<open>npm.publish\<close> off the client is not invoked: no command,
  no warning, no prompt, and no flag changes.  On a private package no command is run and
  no flag changes.  The line with the package URL is logged only with the flag set.
\<close>

theorem isPublished_on_success:
  assumes "release fuel env sc cs w = Some (r, w')"
  shows "events w' = events w @ added w w'
       \<and> (isPublished w' (npm_ref (cs_npmClient cs)) \<longleftrightarrow>
            isPublished w (npm_ref (cs_npmClient cs)) \<or> accepted env is_publish (events w) (added w w'))
       \<and> (\<forall>t. t \<noteq> npm_ref (cs_npmClient cs) \<longrightarrow> isPublished w' t = isPublished w t)
       \<and> (\<forall>n this args w1 r1 w2.
            arg_otpCallback args = otpCallback env sc \<and> publish n env this args w1 = Some (r1, w2) \<longrightarrow>
            (isPublished w2 (npm_ref this) \<longleftrightarrow>
               isPublished w1 (npm_ref this) \<or> accepted env is_publish (events w1) (added w1 w2)))
       \<and> (\<not> npm_publish (npm_opts (cs_npmClient cs)) \<longrightarrow>
            isPublished w' = isPublished w \<and> list_all (\<lambda>ev. \<not> publish_event ev) (added w w'))
       \<and> (npm_private (npm_opts (cs_npmClient cs)) \<longrightarrow>
            isPublished w' = isPublished w \<and> list_all (\<lambda>ev. \<not> is_shell_run ev) (added w w'))
       \<and> (getReleaseUrl_github env (cs_target cs) \<noteq> getPackageUrl (cs_npmClient cs) \<and>
          getReleaseUrl_gitlab env (cs_target cs) \<noteq> getPackageUrl (cs_npmClient cs) \<and>
          Log_log (package_line (cs_npmClient cs)) \<in> set (added w w') \<longrightarrow>
            isPublished w' (npm_ref (cs_npmClient cs)))"
proof (intro conjI allI impI)
  note iff = preservesD [OF published_iff_release assms]
  show "events w' = events w @ added w w'"
    using iff by (rule published_iff_added)
  show "isPublished w' (npm_ref (cs_npmClient cs)) \<longleftrightarrow>
      isPublished w (npm_ref (cs_npmClient cs)) \<or> accepted env is_publish (events w) (added w w')"
    using published_iff_added(2) [OF iff, of "npm_ref (cs_npmClient cs)"] by simp
  show "isPublished w' t = isPublished w t" if "t \<noteq> npm_ref (cs_npmClient cs)" for t
    using published_iff_added(2) [OF iff, of t] that by simp
next
  fix n this args w1 r1 w2
  assume "arg_otpCallback args = otpCallback env sc \<and> publish n env this args w1 = Some (r1, w2)"
  then have "published_iff env (npm_ref this) w1 w2"
    by (auto dest: preservesD [OF published_iff_publish])
  from published_iff_added(2) [OF this, of "npm_ref this"]
  show "isPublished w2 (npm_ref this) \<longleftrightarrow>
      isPublished w1 (npm_ref this) \<or> accepted env is_publish (events w1) (added w1 w2)"
    by simp
next
  assume off: "\<not> npm_publish (npm_opts (cs_npmClient cs))"
  from preservesD [OF disabled_release(2) [OF off] assms]
  show "isPublished w' = isPublished w"
    by (simp add: same_published_def)
  from preservesD [OF disabled_release(1) [OF off] assms]
  show "list_all (\<lambda>ev. \<not> publish_event ev) (added w w')"
    by (simp add: grows_added)
next
  assume priv: "npm_private (npm_opts (cs_npmClient cs))"
  from preservesD [OF private_release(2) [OF priv] assms]
  show "isPublished w' = isPublished w"
    by (simp add: same_published_def)
  from preservesD [OF private_release(1) [OF priv] assms]
  show "list_all (\<lambda>ev. \<not> is_shell_run ev) (added w w')"
    by (simp add: grows_added)
next
  assume "getReleaseUrl_github env (cs_target cs) \<noteq> getPackageUrl (cs_npmClient cs) \<and>
      getReleaseUrl_gitlab env (cs_target cs) \<noteq> getPackageUrl (cs_npmClient cs) \<and>
      Log_log (package_line (cs_npmClient cs)) \<in> set (added w w')"
  then have "announces (package_line (cs_npmClient cs)) (npm_ref (cs_npmClient cs)) w w'"
    and "Log_log (package_line (cs_npmClient cs)) \<in> set (added w w')"
    using assms by (auto dest: preservesD [OF announces_release])
  then show "isPublished w' (npm_ref (cs_npmClient cs))"
    by (auto simp: announces_def added_def)
qed

theorem isPublished_on_success_witness:
  "release 0 quiet_env unattended_scope publishing_clients world0 = Some (Inr (), published_world) \<and>
   accepted quiet_env is_publish (events world0) (added world0 published_world) \<and>
   isPublished published_world (npm_ref (cs_npmClient publishing_clients)) \<and>
   \<not> isPublished published_world Distribution \<and>
   Log_log (package_line (cs_npmClient publishing_clients)) \<in> set (added world0 published_world)"
proof -
  have run: "release 0 quiet_env unattended_scope publishing_clients world0 = Some (Inr (), published_world)"
    by (simp add: run_defs example_defs publishing_clients_def public_client_def unattended_scope_def
        interactive_scope_def published_world_def getPackageUrl_def NPM_BASE_URL_def DEFAULT_TAG_def)
  have acc: "accepted quiet_env is_publish (events world0) (added world0 published_world)"
    by (simp add: added_def world0_def published_world_def is_publish_def quiet_env_def)
  have ref: "npm_ref (cs_npmClient publishing_clients) = Primary"
    by (simp add: publishing_clients_def public_client_def)
  have line: "Log_log (package_line (cs_npmClient publishing_clients)) \<in> set (added world0 published_world)"
    by (simp add: added_def world0_def published_world_def package_line_def getPackageUrl_def
        NPM_BASE_URL_def publishing_clients_def public_client_def my_package_def)
  have before: "\<not> isPublished world0 Distribution"
    by (simp add: world0_def)
  from isPublished_on_success [OF run] acc ref line before run show ?thesis
    by simp
qed

section \<open>Validation comes first\<close>

lemma start_run:
  "start env opts w = Some (Inr (), w\<lparr>events := events w @ start_trace opts\<rparr>)"
  by (simp add: start_def start_trace_def await_def emit_def run_if_def log_warn_def resolve_def)

lemma handle_error_trace:
  "handle_error err w = Some (Inl err, w\<lparr>events := events w @ handler_trace err\<rparr>)"
  by (simp add: handle_error_run handler_trace_def)

lemma not_mutating_start_trace: "list_all (\<lambda>e. \<not> is_mutating e) (start_trace opts)"
  by (simp add: start_trace_def)

lemma not_mutating_handler_trace: "list_all (\<lambda>e. \<not> is_mutating e) (handler_trace err)"
  by (simp add: handler_trace_def)

lemma not_validation_handler_trace: "list_all (\<lambda>e. \<not> is_validation e) (handler_trace err)"
  by (simp add: handler_trace_def)

lemma publish_not_probe: "is_publish c \<Longrightarrow> c \<noteq> ''npm ping'' \<and> c \<noteq> ''npm whoami''"
  by (auto simp: is_publish_def)

lemma probe_not_publish: "\<not> is_publish ''npm ping''" "\<not> is_publish ''npm whoami''"
  by (simp_all add: is_publish_def)

text \<open>The validations change nothing outside.\<close>

lemma not_mutating_validate_clients:
  "preserves (grows (\<lambda>e. \<not> is_mutating e)) (validate_clients env opts)"
  unfolding pipeline_defs
  by (intro preserves_intros steady_grows admits_grows; simp add: probe_not_publish)

text \<open>When all of them pass, each has been asked and has passed.\<close>

lemma validate_clients_resolved:
  assumes "validate_clients env opts w = Some (Inr u, w')"
  shows "events w' = events w @ validation_trace opts"
    and "\<exists>v. call_outcome env Git_validate (events w) = Inr v"
    and "\<exists>v. call_outcome env GitDist_validate (events w @ [Call Git_validate]) = Inr v"
    and "\<exists>v. call_outcome env GitHub_validate (events w @ [Call Git_validate, Call GitDist_validate]) = Inr v"
    and "\<exists>v. call_outcome env GitLab_validate
           (events w @ [Call Git_validate, Call GitDist_validate, Call GitHub_validate]) = Inr v"
    and "npm_publish (npm_opts (cs_npmClient (opt_primary opts))) \<longrightarrow>
           shell_result env ''npm ping''
             (events w @ [Call Git_validate, Call GitDist_validate, Call GitHub_validate, Call GitLab_validate])
             = None \<and>
           shell_result env ''npm whoami''
             (events w @ [Call Git_validate, Call GitDist_validate, Call GitHub_validate, Call GitLab_validate,
                          Shell_run ''npm ping'']) = None"
  using assms
  unfolding validate_clients_def validate_def isRegistryUp_def isAuthenticated_def validation_trace_def
  by (auto simp: invoke_def shell_run_def await_def catch_def resolve_def throw_def Let_def
      split: sum.splits option.splits if_splits)

text \<open>Nothing after the validations is a validation.\<close>

lemma not_validation_release:
  "preserves (grows (\<lambda>e. \<not> is_validation e)) (release fuel env sc cs)"
  unfolding release_def pipeline_defs Let_def
  by (intro preserves_intros preserves_release_npm steady_grows admits_grows)
     (simp_all add: grows_same_events publish_not_probe [OF is_publish_command])

lemma not_validation_release_distribution:
  "preserves (grows (\<lambda>e. \<not> is_validation e)) (release_distribution fuel env sc opts)"
  unfolding release_distribution_def pipeline_defs Let_def
  by (intro preserves_intros not_validation_release steady_grows admits_grows)
     (simp_all add: grows_same_events)

lemma not_validation_phases:
  "preserves (grows (\<lambda>e. \<not> is_validation e)) (resolve_version env opts)"
  "preserves (grows (\<lambda>e. \<not> is_validation e)) (changelog_before_bump env opts)"
  "preserves (grows (\<lambda>e. \<not> is_validation e)) (prompt_for_version env opts)"
  "preserves (grows (\<lambda>e. \<not> is_validation e)) (validate_version env)"
  "preserves (grows (\<lambda>e. \<not> is_validation e)) (register_reset opts)"
  "preserves (grows (\<lambda>e. \<not> is_validation e)) (bump env opts)"
  "preserves (grows (\<lambda>e. \<not> is_validation e)) (changelog_after_bump env opts c)"
  "preserves (grows (\<lambda>e. \<not> is_validation e)) (stage env opts)"
  "preserves (grows (\<lambda>e. \<not> is_validation e)) (finish env opts c l v)"
  unfolding pipeline_defs Let_def
  by (intro preserves_intros steady_grows admits_grows; simp add: grows_same_events)+

lemma not_validation_after:
  "preserves (grows (\<lambda>e. \<not> is_validation e)) (after_validation fuel env opts)"
  unfolding after_validation_def perform_def Let_def
  by (intro preserves_await steady_grows not_validation_phases not_validation_release
      not_validation_release_distribution)

text \<open>
  C2.  What a run adds to the trace falls in two parts.  The first holds what lines 33 to
  60 did, the validations among it, and no step that changes anything outside; the
  second holds no validation.  If a step that changes something outside was made at
  all, the first part is the complete run of the validations, all of which passed, each
  asked in its turn.  A working directory that is not clean (a git client that does not
  validate) is the error of the run whatever else fails; with the git clients
  validated, a missing token (a GitHub client that does not validate) is the error of
  the run, and the version resolver is not even asked.
\<close>

theorem validation_first:
  assumes "runTasks fuel env opts w = Some (r, w')"
  shows "(\<exists>pre post. events w' = events w @ pre @ post
            \<and> list_all (\<lambda>e. \<not> is_mutating e) pre \<and> list_all (\<lambda>e. \<not> is_validation e) post
            \<and> ((\<exists>e \<in> set post. is_mutating e) \<longrightarrow>
                 pre = start_trace opts @ validation_trace opts \<and>
                 (\<exists>w1. validate_clients env opts (w\<lparr>events := events w @ start_trace opts\<rparr>)
                         = Some (Inr (), w1))))
       \<and> (\<forall>w0 w1. validate_clients env opts w0 = Some (Inr (), w1) \<longrightarrow>
            (\<exists>v. call_outcome env Git_validate (events w0) = Inr v) \<and>
            (\<exists>v. call_outcome env GitDist_validate (events w0 @ [Call Git_validate]) = Inr v) \<and>
            (\<exists>v. call_outcome env GitHub_validate
                   (events w0 @ [Call Git_validate, Call GitDist_validate]) = Inr v) \<and>
            (\<exists>v. call_outcome env GitLab_validate
                   (events w0 @ [Call Git_validate, Call GitDist_validate, Call GitHub_validate]) = Inr v) \<and>
            (npm_publish (npm_opts (cs_npmClient (opt_primary opts))) \<longrightarrow>
               shell_result env ''npm ping''
                 (events w0 @ [Call Git_validate, Call GitDist_validate, Call GitHub_validate,
                               Call GitLab_validate]) = None \<and>
               shell_result env ''npm whoami''
                 (events w0 @ [Call Git_validate, Call GitDist_validate, Call GitHub_validate,
                               Call GitLab_validate, Shell_run ''npm ping'']) = None))
       \<and> ((\<forall>h. call_outcome env Git_validate h = Inl e1) \<longrightarrow>
            runTasks fuel env opts w =
              Some (Inl e1, w\<lparr>events := events w @ start_trace opts @ [Call Git_validate]
                                     @ handler_trace e1\<rparr>))
       \<and> ((\<forall>h. \<exists>v. call_outcome env Git_validate h = Inr v) \<and>
          (\<forall>h. \<exists>v. call_outcome env GitDist_validate h = Inr v) \<and>
          (\<forall>h. call_outcome env GitHub_validate h = Inl e2) \<longrightarrow>
            runTasks fuel env opts w =
              Some (Inl e2, w\<lparr>events := events w @ start_trace opts
                                     @ [Call Git_validate, Call GitDist_validate, Call GitHub_validate]
                                     @ handler_trace e2\<rparr>))"
proof (intro conjI allI impI)
  let ?w0 = "w\<lparr>events := events w @ start_trace opts\<rparr>"
  let ?split = "\<lambda>pre post. events w' = events w @ pre @ post
            \<and> list_all (\<lambda>e. \<not> is_mutating e) pre \<and> list_all (\<lambda>e. \<not> is_validation e) post
            \<and> ((\<exists>e \<in> set post. is_mutating e) \<longrightarrow>
                 pre = start_trace opts @ validation_trace opts \<and>
                 (\<exists>w1. validate_clients env opts ?w0 = Some (Inr (), w1)))"
  have started: "runTasks_try fuel env opts w =
      await (validate_clients env opts) (\<lambda>_. after_validation fuel env opts) ?w0"
    by (simp add: runTasks_try_def await_def start_run)
  have val_failed: "\<exists>pre post. ?split pre post"
    if val: "validate_clients env opts ?w0 = Some (Inl e, w1)"
      and fin: "events w' = events w1 @ handler_trace e" for e w1
  proof -
    from preservesD [OF not_mutating_validate_clients val]
    obtain tv where tv: "events w1 = events ?w0 @ tv" "list_all (\<lambda>e. \<not> is_mutating e) tv"
      by (auto simp: grows_def)
    have nm: "\<not> (\<exists>x \<in> set (handler_trace e). is_mutating x)"
      using not_mutating_handler_trace [of e] by (simp add: list_all_iff)
    have "?split (start_trace opts @ tv) (handler_trace e)"
      using tv fin nm
      by (simp add: not_mutating_start_trace not_validation_handler_trace)
    then show ?thesis by blast
  qed
  have val_passed: "\<exists>pre post. ?split pre post"
    if val: "validate_clients env opts ?w0 = Some (Inr u, w1)"
      and rest: "after_validation fuel env opts w1 = Some (r2, w2)"
      and fin: "events w' = events w2 @ tail"
      and tail: "list_all (\<lambda>e. \<not> is_validation e) tail" for u w1 r2 w2 tail
  proof -
    have tv: "events w1 = events ?w0 @ validation_trace opts"
      using val by (rule validate_clients_resolved)
    from preservesD [OF not_validation_after rest]
    obtain ta where ta: "events w2 = events w1 @ ta" "list_all (\<lambda>e. \<not> is_validation e) ta"
      by (auto simp: grows_def)
    have nm: "list_all (\<lambda>e. \<not> is_mutating e) (validation_trace opts)"
      by (simp add: validation_trace_def probe_not_publish)
    have "?split (start_trace opts @ validation_trace opts) (ta @ tail)"
      using tv ta fin tail val nm
      by (auto simp: not_mutating_start_trace)
    then show ?thesis by blast
  qed
  from assms show "\<exists>pre post. ?split pre post"
    unfolding runTasks_def
  proof (cases rule: catch_cases)
    case (caught e w1)
    from caught(2) have fin: "events w' = events w1 @ handler_trace e"
      by (auto simp: handle_error_trace)
    from caught(1) [unfolded started] show ?thesis
    proof (cases rule: await_cases)
      case (thrown e')
      then have "validate_clients env opts ?w0 = Some (Inl e, w1)" by simp
      then show ?thesis using fin by (rule val_failed)
    next
      case (continued u wv)
      show ?thesis
        by (rule val_passed [OF continued(1) continued(2) fin not_validation_handler_trace])
    qed
  next
    case (passed a)
    from passed(1) [unfolded started] show ?thesis
    proof (cases rule: await_cases)
      case (thrown e')
      then show ?thesis by simp
    next
      case (continued u wv)
      show ?thesis
        by (rule val_passed [OF continued(1) continued(2), where tail = "[]"]) simp_all
    qed
  qed
next
  fix w0 w1
  assume val: "validate_clients env opts w0 = Some (Inr (), w1)"
  note facts = validate_clients_resolved [OF val]
  show "\<exists>v. call_outcome env Git_validate (events w0) = Inr v" by (rule facts)
  show "\<exists>v. call_outcome env GitDist_validate (events w0 @ [Call Git_validate]) = Inr v" by (rule facts)
  show "\<exists>v. call_outcome env GitHub_validate
                   (events w0 @ [Call Git_validate, Call GitDist_validate]) = Inr v" by (rule facts)
  show "\<exists>v. call_outcome env GitLab_validate
                   (events w0 @ [Call Git_validate, Call GitDist_validate, Call GitHub_validate]) = Inr v"
    by (rule facts)
  show "shell_result env ''npm ping''
                 (events w0 @ [Call Git_validate, Call GitDist_validate, Call GitHub_validate,
                               Call GitLab_validate]) = None"
    if "npm_publish (npm_opts (cs_npmClient (opt_primary opts)))"
    using facts(6) that by simp
  show "shell_result env ''npm whoami''
                 (events w0 @ [Call Git_validate, Call GitDist_validate, Call GitHub_validate,
                               Call GitLab_validate, Shell_run ''npm ping'']) = None"
    if "npm_publish (npm_opts (cs_npmClient (opt_primary opts)))"
    using facts(6) that by simp
next
  assume "\<forall>h. call_outcome env Git_validate h = Inl e1"
  then show "runTasks fuel env opts w =
      Some (Inl e1, w\<lparr>events := events w @ start_trace opts @ [Call Git_validate] @ handler_trace e1\<rparr>)"
    by (simp add: runTasks_def runTasks_try_def validate_clients_def catch_def await_def start_run
        invoke_def handle_error_trace)
next
  assume "(\<forall>h. \<exists>v. call_outcome env Git_validate h = Inr v) \<and>
          (\<forall>h. \<exists>v. call_outcome env GitDist_validate h = Inr v) \<and>
          (\<forall>h. call_outcome env GitHub_validate h = Inl e2)"
  then have git: "\<And>h. \<exists>v. call_outcome env Git_validate h = Inr v"
    and dist: "\<And>h. \<exists>v. call_outcome env GitDist_validate h = Inr v"
    and hub: "\<And>h. call_outcome env GitHub_validate h = Inl e2"
    by blast+
  obtain v1 where v1: "call_outcome env Git_validate (events w @ start_trace opts) = Inr v1"
    using git by blast
  obtain v2 where v2: "call_outcome env GitDist_validate (events w @ start_trace opts @ [Call Git_validate]) = Inr v2"
    using dist by blast
  show "runTasks fuel env opts w =
      Some (Inl e2, w\<lparr>events := events w @ start_trace opts
                             @ [Call Git_validate, Call GitDist_validate, Call GitHub_validate]
                             @ handler_trace e2\<rparr>)"
    by (simp add: runTasks_def runTasks_try_def validate_clients_def catch_def await_def start_run
        invoke_def handle_error_trace v1 v2 hub)
qed

theorem validation_first_witness:
  "(\<forall>h. call_outcome broken_env Git_validate h = Inl new_GitCleanWorkingDirError) \<and>
   (\<forall>h. call_outcome broken_env GitHub_validate h = Inl (new_TokenError ''GitHub'' ''GITHUB_TOKEN'')) \<and>
   (\<forall>h. call_outcome broken_env (Version_bump (Val ''patch'')) h = Inl new_InvalidVersionError) \<and>
   runTasks 0 broken_env idle_options world0 =
     Some (Inl new_GitCleanWorkingDirError,
           world0\<lparr>events := start_trace idle_options @ [Call Git_validate]
                     @ handler_trace new_GitCleanWorkingDirError\<rparr>) \<and>
   (\<forall>h. call_outcome tokenless_env GitHub_validate h = Inl (new_TokenError ''GitHub'' ''GITHUB_TOKEN'')) \<and>
   (\<forall>h. call_outcome tokenless_env (Version_bump (Val ''patch'')) h = Inl new_InvalidVersionError) \<and>
   runTasks 0 tokenless_env idle_options world0 =
     Some (Inl (new_TokenError ''GitHub'' ''GITHUB_TOKEN''),
           world0\<lparr>events := start_trace idle_options
                     @ [Call Git_validate, Call GitDist_validate, Call GitHub_validate]
                     @ handler_trace (new_TokenError ''GitHub'' ''GITHUB_TOKEN'')\<rparr>)"
proof -
  have dirty: "\<forall>h. call_outcome broken_env Git_validate h = Inl new_GitCleanWorkingDirError"
    and token: "\<forall>h. call_outcome broken_env GitHub_validate h = Inl (new_TokenError ''GitHub'' ''GITHUB_TOKEN'')"
    and invalid: "\<forall>h. call_outcome broken_env (Version_bump (Val ''patch'')) h = Inl new_InvalidVersionError"
    by (simp_all add: broken_env_def quiet_env_def)
  have clean: "\<forall>h. \<exists>v. call_outcome tokenless_env Git_validate h = Inr v"
    and stage: "\<forall>h. \<exists>v. call_outcome tokenless_env GitDist_validate h = Inr v"
    and token': "\<forall>h. call_outcome tokenless_env GitHub_validate h = Inl (new_TokenError ''GitHub'' ''GITHUB_TOKEN'')"
    and invalid': "\<forall>h. call_outcome tokenless_env (Version_bump (Val ''patch'')) h = Inl new_InvalidVersionError"
    by (simp_all add: tokenless_env_def quiet_env_def)
  have run1: "runTasks 0 broken_env idle_options world0 =
      Some (Inl new_GitCleanWorkingDirError,
            world0\<lparr>events := [Call HandleDeprecated, Metrics_event ''start'', Call Git_validate,
               Metrics_exception new_GitCleanWorkingDirError,
               Log_error (message new_GitCleanWorkingDirError), Debug new_GitCleanWorkingDirError]\<rparr>)"
    by (simp add: run_defs example_defs broken_env_def new_GitCleanWorkingDirError_def)
  have run2: "runTasks 0 tokenless_env idle_options world0 =
      Some (Inl (new_TokenError ''GitHub'' ''GITHUB_TOKEN''),
            world0\<lparr>events := [Call HandleDeprecated, Metrics_event ''start'', Call Git_validate,
               Call GitDist_validate, Call GitHub_validate,
               Metrics_exception (new_TokenError ''GitHub'' ''GITHUB_TOKEN''),
               Log_error (message (new_TokenError ''GitHub'' ''GITHUB_TOKEN'')),
               Debug (new_TokenError ''GitHub'' ''GITHUB_TOKEN'')]\<rparr>)"
    by (simp add: run_defs example_defs tokenless_env_def new_TokenError_def)
  have first: "runTasks 0 broken_env idle_options world0 =
     Some (Inl new_GitCleanWorkingDirError,
           world0\<lparr>events := events world0 @ start_trace idle_options @ [Call Git_validate]
                     @ handler_trace new_GitCleanWorkingDirError\<rparr>)"
    using validation_first [OF run1, where ?e1.0 = new_GitCleanWorkingDirError] dirty by blast
  have second: "runTasks 0 tokenless_env idle_options world0 =
     Some (Inl (new_TokenError ''GitHub'' ''GITHUB_TOKEN''),
           world0\<lparr>events := events world0 @ start_trace idle_options
                     @ [Call Git_validate, Call GitDist_validate, Call GitHub_validate]
                     @ handler_trace (new_TokenError ''GitHub'' ''GITHUB_TOKEN'')\<rparr>)"
    using validation_first [OF run2, where ?e2.0 = "new_TokenError ''GitHub'' ''GITHUB_TOKEN''"]
      clean stage token' by blast
  have "events world0 = []"
    by (simp add: world0_def)
  with first second dirty token invalid token' invalid' show ?thesis
    by simp
qed

section \<open>The changelog and the bump\<close>

lemma quiet_handler_trace: "list_all quiet (handler_trace err)"
  by (simp add: handler_trace_def quiet_def)

lemma handle_error_isl: "handle_error e w = Some (r, w') \<Longrightarrow> isl r \<and> events w' = events w @ handler_trace e"
  by (auto simp: handle_error_trace)

lemma quiet_phases:
  "preserves (grows quiet) (start env opts)"
  "preserves (grows quiet) (validate_clients env opts)"
  "preserves (grows quiet) (resolve_version env opts)"
  "preserves (grows quiet) (prompt_for_version env opts)"
  "preserves (grows quiet) (validate_version env)"
  "preserves (grows quiet) (register_reset opts)"
  unfolding pipeline_defs Let_def
  by (intro preserves_intros steady_grows admits_grows;
      simp add: grows_same_events quiet_def probe_not_publish)+

lemma bump_resolved:
  assumes "bump env opts w = Some (Inr v, w')"
  shows "events w' = events w @ hook_trace (opt_beforeBump opts) @ Call Shell_bump # hook_trace (opt_afterBump opts)"
  using assms
  unfolding bump_def hook_def spinner_show_def hook_trace_def
  by (auto simp: run_def invoke_def resolve_def Let_def elim!: await_cases
      split: if_splits option.splits sum.splits)

lemma quiet_hook_trace: "list_all quiet (hook_trace s)"
  by (simp add: hook_trace_def quiet_def)

lemma bump_failed:
  "preserves (grows (\<lambda>e. e \<noteq> Call Changelog_generate \<and> \<not> release_event e)) (bump env opts)"
  unfolding pipeline_defs Let_def
  by (intro preserves_intros steady_grows admits_grows; simp add: grows_same_events)

lemma generate_cases:
  assumes "generateAndPreviewChangelog env w = Some (r, w')"
  obtains (failed) e where "r = Inl e" and "events w' = events w @ [Call Changelog_generate]"
    | (generated) c where "r = Inr c" and "call_outcome env Changelog_generate (events w) = Inr c"
      and "events w' = events w @ [Call Changelog_generate, Log_preview ''changelog'' c]"
  using assms
  unfolding generateAndPreviewChangelog_def logPreview_def
  by (auto simp: invoke_def emit_def resolve_def Let_def elim!: await_cases split: sum.splits)

lemma store_cases:
  assumes "await (generateAndPreviewChangelog env) (\<lambda>changelog.
             await (emit (Set_runtime_changelog changelog)) (\<lambda>_. resolve changelog)) w = Some (r, w')"
  obtains (failed) e where "r = Inl e" and "events w' = events w @ [Call Changelog_generate]"
    | (stored) c where "r = Inr c" and "call_outcome env Changelog_generate (events w) = Inr c"
      and "events w' = events w @ [Call Changelog_generate, Log_preview ''changelog'' c, Set_runtime_changelog c]"
  using assms
proof (cases rule: await_cases)
  case (thrown e)
  from thrown(1) show ?thesis
    by (cases rule: generate_cases) (auto intro: failed simp: thrown)
next
  case (continued a w1)
  from continued(1) show ?thesis
  proof (cases rule: generate_cases)
    case (failed e)
    then show ?thesis by simp
  next
    case (generated c)
    with continued(2) show ?thesis
      by (intro stored [of c]) (auto simp: await_def emit_def resolve_def)
  qed
qed

lemma later_release:
  "preserves (grows (\<lambda>e. e \<noteq> Call Changelog_generate \<and> e \<noteq> Call Shell_bump)) (release fuel env sc cs)"
  unfolding release_def pipeline_defs Let_def
  by (intro preserves_intros preserves_release_npm steady_grows admits_grows)
     (simp_all add: grows_same_events)

lemma later_release_distribution:
  "preserves (grows (\<lambda>e. e \<noteq> Call Changelog_generate \<and> e \<noteq> Call Shell_bump))
     (release_distribution fuel env sc opts)"
  unfolding release_distribution_def pipeline_defs Let_def
  by (intro preserves_intros later_release steady_grows admits_grows)
     (simp_all add: grows_same_events)

lemma later_phases:
  "preserves (grows (\<lambda>e. e \<noteq> Call Changelog_generate \<and> e \<noteq> Call Shell_bump)) (stage env opts)"
  "preserves (grows (\<lambda>e. e \<noteq> Call Changelog_generate \<and> e \<noteq> Call Shell_bump)) (finish env opts c l v)"
  unfolding pipeline_defs Let_def
  by (intro preserves_intros steady_grows admits_grows; simp add: grows_same_events)+

lemma weaken_grows:
  assumes "preserves (grows P) m" and "\<And>e. P e \<Longrightarrow> Q e"
  shows "preserves (grows Q) m"
  using assms unfolding preserves_def grows_def list_all_iff by blast

lemma no_generation_phases:
  "preserves (grows (\<lambda>e. e \<noteq> Call Changelog_generate)) (prompt_for_version env opts)"
  "preserves (grows (\<lambda>e. e \<noteq> Call Changelog_generate)) (validate_version env)"
  "preserves (grows (\<lambda>e. e \<noteq> Call Changelog_generate)) (register_reset opts)"
  "preserves (grows (\<lambda>e. e \<noteq> Call Changelog_generate)) (bump env opts)"
  "preserves (grows (\<lambda>e. e \<noteq> Call Changelog_generate)) (stage env opts)"
  "preserves (grows (\<lambda>e. e \<noteq> Call Changelog_generate)) (release fuel env sc cs)"
  "preserves (grows (\<lambda>e. e \<noteq> Call Changelog_generate)) (release_distribution fuel env sc opts)"
  "preserves (grows (\<lambda>e. e \<noteq> Call Changelog_generate)) (finish env opts c l v)"
  by (rule weaken_grows, rule quiet_phases bump_failed later_phases later_release
      later_release_distribution, simp add: quiet_def)+

lemma no_generation_after_bump:
  assumes "\<not> version_isRecommendation env (opt_increment opts)"
  shows "preserves (grows (\<lambda>e. e \<noteq> Call Changelog_generate)) (changelog_after_bump env opts c)"
  using assms by (simp add: changelog_after_bump_def preserves_resolve steady_grows)

lemma quiet_before_bump:
  assumes "version_isRecommendation env (opt_increment opts)"
  shows "preserves (grows quiet) (changelog_before_bump env opts)"
  using assms by (simp add: changelog_before_bump_def preserves_resolve steady_grows)

text \<open>The two shapes of a trace, under what comes before and after.\<close>

lemma deferred_quiet: "list_all quiet t \<Longrightarrow> deferred_trace env opts h True t"
  by (auto simp: deferred_trace_def quiet_def list_all_iff)

lemma deferred_prepend:
  assumes q: "list_all quiet q" and t: "deferred_trace env opts (h @ q) f t"
  shows "deferred_trace env opts h f (q @ t)"
proof -
  from t consider
    (early) "f" and "list_all (\<lambda>e. e \<noteq> Call Changelog_generate \<and> \<not> release_event e) t"
  | (late) u v where "t = u @ Call Shell_bump # hook_trace (opt_afterBump opts) @ Call Changelog_generate # v"
      and "list_all quiet u"
      and "list_all (\<lambda>e. e \<noteq> Call Changelog_generate \<and> e \<noteq> Call Shell_bump) v"
      and "(f \<and> list_all (\<lambda>e. \<not> release_event e) v) \<or>
           (\<exists>c v'. v = Log_preview ''changelog'' c # Set_runtime_changelog c # v' \<and>
              call_outcome env Changelog_generate
                ((h @ q) @ u @ Call Shell_bump # hook_trace (opt_afterBump opts)) = Inr c)"
    unfolding deferred_trace_def by blast
  then show ?thesis
  proof cases
    case early
    with q show ?thesis
      by (auto simp: deferred_trace_def quiet_def list_all_iff)
  next
    case late
    have "q @ t = (q @ u) @ Call Shell_bump # hook_trace (opt_afterBump opts) @ Call Changelog_generate # v"
      by (simp add: late(1))
    moreover have "list_all quiet (q @ u)"
      using q late(2) by simp
    ultimately show ?thesis
      unfolding deferred_trace_def using late(3,4)
      by (rule_tac disjI2, rule_tac exI [of _ "q @ u"], rule_tac exI [of _ v]) simp
  qed
qed

lemma deferred_append:
  assumes q: "list_all quiet q" and t: "deferred_trace env opts h f t"
  shows "deferred_trace env opts h True (t @ q)"
proof -
  from t consider
    (early) "list_all (\<lambda>e. e \<noteq> Call Changelog_generate \<and> \<not> release_event e) t"
  | (late) u v where "t = u @ Call Shell_bump # hook_trace (opt_afterBump opts) @ Call Changelog_generate # v"
      and "list_all quiet u"
      and "list_all (\<lambda>e. e \<noteq> Call Changelog_generate \<and> e \<noteq> Call Shell_bump) v"
      and "list_all (\<lambda>e. \<not> release_event e) v \<or>
           (\<exists>c v'. v = Log_preview ''changelog'' c # Set_runtime_changelog c # v' \<and>
              call_outcome env Changelog_generate
                (h @ u @ Call Shell_bump # hook_trace (opt_afterBump opts)) = Inr c)"
    unfolding deferred_trace_def by blast
  then show ?thesis
  proof cases
    case early
    with q show ?thesis
      by (auto simp: deferred_trace_def quiet_def list_all_iff)
  next
    case late
    have "t @ q = u @ Call Shell_bump # hook_trace (opt_afterBump opts) @ Call Changelog_generate # (v @ q)"
      by (simp add: late(1))
    moreover have "list_all (\<lambda>e. e \<noteq> Call Changelog_generate \<and> e \<noteq> Call Shell_bump) (v @ q)"
      using q late(3) by (auto simp: quiet_def list_all_iff)
    moreover have "list_all (\<lambda>e. \<not> release_event e) (v @ q) \<or>
           (\<exists>c v'. v @ q = Log_preview ''changelog'' c # Set_runtime_changelog c # v' \<and>
              call_outcome env Changelog_generate
                (h @ u @ Call Shell_bump # hook_trace (opt_afterBump opts)) = Inr c)"
      using q late(4) by (auto simp: quiet_def list_all_iff)
    ultimately show ?thesis
      unfolding deferred_trace_def using late(2)
      by (rule_tac disjI2, rule_tac exI [of _ u], rule_tac exI [of _ "v @ q"]) simp
  qed
qed

lemma early_quiet: "list_all quiet t \<Longrightarrow> early_trace env h True t"
  by (auto simp: early_trace_def quiet_def list_all_iff)

lemma early_prepend:
  assumes q: "list_all quiet q" and t: "early_trace env (h @ q) f t"
  shows "early_trace env h f (q @ t)"
proof -
  from t consider
    (early) "f" and "list_all (\<lambda>e. e \<noteq> Call Shell_bump \<and> \<not> release_event e) t"
  | (late) u c v where
      "t = u @ Call Changelog_generate # Log_preview ''changelog'' c # Set_runtime_changelog c # v"
      and "list_all quiet u"
      and "list_all (\<lambda>e. e \<noteq> Call Changelog_generate) v"
      and "call_outcome env Changelog_generate ((h @ q) @ u) = Inr c"
    unfolding early_trace_def by blast
  then show ?thesis
  proof cases
    case early
    with q show ?thesis
      by (auto simp: early_trace_def quiet_def list_all_iff)
  next
    case late
    have "q @ t = (q @ u) @ Call Changelog_generate # Log_preview ''changelog'' c # Set_runtime_changelog c # v"
      by (simp add: late(1))
    moreover have "list_all quiet (q @ u)"
      using q late(2) by simp
    ultimately show ?thesis
      unfolding early_trace_def using late(3,4)
      by (rule_tac disjI2, rule_tac exI [of _ "q @ u"], rule_tac exI [of _ c], rule_tac exI [of _ v]) simp
  qed
qed

lemma early_append:
  assumes q: "list_all quiet q" and t: "early_trace env h f t"
  shows "early_trace env h True (t @ q)"
proof -
  from t consider
    (early) "list_all (\<lambda>e. e \<noteq> Call Shell_bump \<and> \<not> release_event e) t"
  | (late) u c v where
      "t = u @ Call Changelog_generate # Log_preview ''changelog'' c # Set_runtime_changelog c # v"
      and "list_all quiet u"
      and "list_all (\<lambda>e. e \<noteq> Call Changelog_generate) v"
      and "call_outcome env Changelog_generate (h @ u) = Inr c"
    unfolding early_trace_def by blast
  then show ?thesis
  proof cases
    case early
    with q show ?thesis
      by (auto simp: early_trace_def quiet_def list_all_iff)
  next
    case late
    have "t @ q = u @ Call Changelog_generate # Log_preview ''changelog'' c # Set_runtime_changelog c # (v @ q)"
      by (simp add: late(1))
    moreover have "list_all (\<lambda>e. e \<noteq> Call Changelog_generate) (v @ q)"
      using q late(3) by (auto simp: quiet_def list_all_iff)
    ultimately show ?thesis
      unfolding early_trace_def using late(2,4)
      by (rule_tac disjI2, rule_tac exI [of _ u], rule_tac exI [of _ c], rule_tac exI [of _ "v @ q"]) simp
  qed
qed

text \<open>A step that is quiet, before the rest of the run.\<close>

lemma deferred_await:
  assumes run: "await m f w = Some (r, w')"
    and m: "preserves (grows quiet) m"
    and rest: "\<And>a w1. f a w1 = Some (r, w') \<Longrightarrow>
                 \<exists>tr. events w' = events w1 @ tr \<and> deferred_trace env opts (events w1) (isl r) tr"
  shows "\<exists>tr. events w' = events w @ tr \<and> deferred_trace env opts (events w) (isl r) tr"
  using run
proof (cases rule: await_cases)
  case (thrown e)
  from preservesD [OF m thrown(1)] obtain tr where "events w' = events w @ tr" and "list_all quiet tr"
    by (auto simp: grows_def)
  with thrown(2) show ?thesis
    by (auto intro: deferred_quiet)
next
  case (continued a w1)
  from preservesD [OF m continued(1)] obtain q where q: "events w1 = events w @ q" "list_all quiet q"
    by (auto simp: grows_def)
  from rest [OF continued(2)] obtain tr where tr: "events w' = events w1 @ tr"
    "deferred_trace env opts (events w1) (isl r) tr"
    by blast
  from q tr have "deferred_trace env opts (events w) (isl r) (q @ tr)"
    by (intro deferred_prepend) simp_all
  with q tr show ?thesis
    by (intro exI [of _ "q @ tr"]) simp
qed

lemma early_await:
  assumes run: "await m f w = Some (r, w')"
    and m: "preserves (grows quiet) m"
    and rest: "\<And>a w1. f a w1 = Some (r, w') \<Longrightarrow>
                 \<exists>tr. events w' = events w1 @ tr \<and> early_trace env (events w1) (isl r) tr"
  shows "\<exists>tr. events w' = events w @ tr \<and> early_trace env (events w) (isl r) tr"
  using run
proof (cases rule: await_cases)
  case (thrown e)
  from preservesD [OF m thrown(1)] obtain tr where "events w' = events w @ tr" and "list_all quiet tr"
    by (auto simp: grows_def)
  with thrown(2) show ?thesis
    by (auto intro: early_quiet)
next
  case (continued a w1)
  from preservesD [OF m continued(1)] obtain q where q: "events w1 = events w @ q" "list_all quiet q"
    by (auto simp: grows_def)
  from rest [OF continued(2)] obtain tr where tr: "events w' = events w1 @ tr"
    "early_trace env (events w1) (isl r) tr"
    by blast
  from q tr have "early_trace env (events w) (isl r) (q @ tr)"
    by (intro early_prepend) simp_all
  with q tr show ?thesis
    by (intro exI [of _ "q @ tr"]) simp
qed

text \<open>The bump and what follows it, when the changelog is deferred.\<close>

lemma deferred_bump:
  assumes dfr: "version_isRecommendation env (opt_increment opts)"
    and run: "await (bump env opts) (\<lambda>_. await (changelog_after_bump env opts c0) rest) w = Some (r, w')"
    and rest: "\<And>c. preserves (grows (\<lambda>e. e \<noteq> Call Changelog_generate \<and> e \<noteq> Call Shell_bump)) (rest c)"
  shows "\<exists>tr. events w' = events w @ tr \<and> deferred_trace env opts (events w) (isl r) tr"
  using run
proof (cases rule: await_cases)
  case (thrown e)
  from preservesD [OF bump_failed thrown(1)] obtain tr where "events w' = events w @ tr"
    and "list_all (\<lambda>e. e \<noteq> Call Changelog_generate \<and> \<not> release_event e) tr"
    by (auto simp: grows_def)
  with thrown(2) show ?thesis
    by (auto simp: deferred_trace_def)
next
  case (continued a w1)
  let ?u = "hook_trace (opt_beforeBump opts)"
  let ?a = "hook_trace (opt_afterBump opts)"
  have w1: "events w1 = events w @ ?u @ Call Shell_bump # ?a"
    by (rule bump_resolved [OF continued(1)])
  have u: "list_all quiet ?u"
    by (rule quiet_hook_trace)
  from continued(2) show ?thesis
  proof (cases rule: await_cases)
    case (thrown e)
    from thrown(1) dfr have "events w' = events w1 @ [Call Changelog_generate]"
      unfolding changelog_after_bump_def Let_def
      by (simp only: if_True not_False_eq_True) (erule store_cases; simp)
    with w1 have "events w' = events w @ ?u @ Call Shell_bump # ?a @ Call Changelog_generate # []"
      by simp
    moreover have "deferred_trace env opts (events w) (isl r)
                     (?u @ Call Shell_bump # ?a @ Call Changelog_generate # [])"
      unfolding deferred_trace_def using u thrown(2)
      by (rule_tac disjI2, rule_tac exI [of _ ?u], rule_tac exI [of _ "[]"]) simp
    ultimately show ?thesis
      by blast
  next
    case inner: (continued c w2)
    from inner(1) dfr have c: "call_outcome env Changelog_generate (events w1) = Inr c"
      and w2: "events w2 = events w1 @ [Call Changelog_generate, Log_preview ''changelog'' c, Set_runtime_changelog c]"
      unfolding changelog_after_bump_def Let_def
      by (simp_all only: if_True not_False_eq_True) (erule store_cases; simp)+
    from preservesD [OF rest inner(2)] obtain v where v: "events w' = events w2 @ v"
      "list_all (\<lambda>e. e \<noteq> Call Changelog_generate \<and> e \<noteq> Call Shell_bump) v"
      by (auto simp: grows_def)
    let ?v = "Log_preview ''changelog'' c # Set_runtime_changelog c # v"
    from w1 w2 v have "events w' = events w @ ?u @ Call Shell_bump # ?a @ Call Changelog_generate # ?v"
      by simp
    moreover have "deferred_trace env opts (events w) (isl r)
                     (?u @ Call Shell_bump # ?a @ Call Changelog_generate # ?v)"
      unfolding deferred_trace_def using u v(2) c w1
      by (rule_tac disjI2, rule_tac exI [of _ ?u], rule_tac exI [of _ ?v]) simp
    ultimately show ?thesis
      by blast
  qed
qed

text \<open>The generation and what follows it, when the changelog is not deferred.\<close>

lemma early_generation:
  assumes dfr: "\<not> version_isRecommendation env (opt_increment opts)"
    and run: "await (changelog_before_bump env opts) rest w = Some (r, w')"
    and rest: "\<And>c. preserves (grows (\<lambda>e. e \<noteq> Call Changelog_generate)) (rest c)"
  shows "\<exists>tr. events w' = events w @ tr \<and> early_trace env (events w) (isl r) tr"
  using run
proof (cases rule: await_cases)
  case (thrown e)
  from thrown(1) dfr have "events w' = events w @ [Call Changelog_generate]"
    unfolding changelog_before_bump_def Let_def
    by (simp only: if_True not_False_eq_True) (erule store_cases; simp)
  with thrown(2) show ?thesis
    by (simp add: early_trace_def)
next
  case (continued c w1)
  from continued(1) dfr have c: "call_outcome env Changelog_generate (events w) = Inr c"
    and w1: "events w1 = events w @ [Call Changelog_generate, Log_preview ''changelog'' c, Set_runtime_changelog c]"
    unfolding changelog_before_bump_def Let_def
    by (simp_all only: if_True not_False_eq_True) (erule store_cases; simp)+
  from preservesD [OF rest continued(2)] obtain v where v: "events w' = events w1 @ v"
    "list_all (\<lambda>e. e \<noteq> Call Changelog_generate) v"
    by (auto simp: grows_def)
  from w1 v have "events w' = events w @ [] @ Call Changelog_generate # Log_preview ''changelog'' c
                    # Set_runtime_changelog c # v"
    by simp
  moreover have "early_trace env (events w) (isl r)
                   ([] @ Call Changelog_generate # Log_preview ''changelog'' c # Set_runtime_changelog c # v)"
    unfolding early_trace_def using v(2) c
    by (rule_tac disjI2, rule_tac exI [of _ "[]"], rule_tac exI [of _ c], rule_tac exI [of _ v]) simp
  ultimately show ?thesis
    by blast
qed

lemma deferred_try:
  assumes dfr: "version_isRecommendation env (opt_increment opts)"
    and run: "runTasks_try fuel env opts w = Some (r, w')"
  shows "\<exists>tr. events w' = events w @ tr \<and> deferred_trace env opts (events w) (isl r) tr"
  using run unfolding runTasks_try_def after_validation_def perform_def Let_def
  apply -
  apply (erule deferred_await, rule quiet_phases)
  apply (erule deferred_await, rule quiet_phases)
  apply (erule deferred_await, rule quiet_phases)
  apply (erule deferred_await, rule quiet_before_bump [OF dfr])
  apply (erule deferred_await, rule quiet_phases)
  apply (erule deferred_await, rule quiet_phases)
  apply (erule deferred_await, rule quiet_phases)
  apply (erule deferred_bump [OF dfr])
  apply (intro preserves_await steady_grows later_phases later_release later_release_distribution)
  done

lemma early_try:
  assumes dfr: "\<not> version_isRecommendation env (opt_increment opts)"
    and run: "runTasks_try fuel env opts w = Some (r, w')"
  shows "\<exists>tr. events w' = events w @ tr \<and> early_trace env (events w) (isl r) tr"
  using run unfolding runTasks_try_def after_validation_def perform_def Let_def
  apply -
  apply (erule early_await, rule quiet_phases)
  apply (erule early_await, rule quiet_phases)
  apply (erule early_await, rule quiet_phases)
  apply (erule early_generation [OF dfr])
  apply (intro preserves_await steady_grows no_generation_phases no_generation_after_bump [OF dfr])
  done

text \<open>
  C4.  When the increment is a recommendation, the changelog is generated only after the
  bump: at most once in a run, right after the manifest has been rewritten and the
  \<open>afterBump\<close> hook has run.  When it is not, the changelog is generated before the
  bump, again at most once.  In both cases what was generated is previewed and stored in
  the runtime options at once, no step of the release sequence comes before that, and a
  run that resolves has generated and stored a changelog.
\<close>

theorem changelog_and_bump:
  assumes "runTasks fuel env opts w = Some (r, w')"
  shows "events w' = events w @ added w w' \<and>
         (if version_isRecommendation env (opt_increment opts)
          then deferred_trace env opts (events w) (isl r) (added w w')
          else early_trace env (events w) (isl r) (added w w'))"
proof -
  let ?shape = "\<lambda>failed tr. if version_isRecommendation env (opt_increment opts)
          then deferred_trace env opts (events w) failed tr
          else early_trace env (events w) failed tr"
  have "\<exists>tr. events w' = events w @ tr \<and> ?shape (isl r) tr"
    using assms unfolding runTasks_def
  proof (cases rule: catch_cases)
    case (caught e w1)
    from caught(2) have r: "isl r" and w': "events w' = events w1 @ handler_trace e"
      by (simp_all add: handle_error_isl)
    have "\<exists>tr. events w1 = events w @ tr \<and> ?shape True tr"
      using deferred_try [OF _ caught(1)] early_try [OF _ caught(1)] by auto
    then obtain tr where tr: "events w1 = events w @ tr" "?shape True tr"
      by blast
    from tr(2) have "?shape True (tr @ handler_trace e)"
      by (auto intro: deferred_append early_append quiet_handler_trace)
    with r w' tr(1) show ?thesis
      by (intro exI [of _ "tr @ handler_trace e"]) simp
  next
    case (passed a)
    with deferred_try [OF _ passed(1)] early_try [OF _ passed(1)] show ?thesis
      by auto
  qed
  then obtain tr where tr: "events w' = events w @ tr" "?shape (isl r) tr"
    by blast
  from tr(1) have "added w w' = tr"
    by (simp add: added_def)
  with tr show ?thesis
    by simp
qed

theorem changelog_and_bump_witness:
  "runTasks 0 recommending_env idle_options world0 = Some (Inr patch_result, recommended_world) \<and>
   version_isRecommendation recommending_env (opt_increment idle_options) \<and>
   deferred_trace recommending_env idle_options [] False (added world0 recommended_world) \<and>
   runTasks 0 patch_env idle_options world0 = Some (Inr patch_result, patched_world) \<and>
   version_isRecommendation patch_env (opt_increment idle_options) = False \<and>
   early_trace patch_env [] False (added world0 patched_world)"
proof -
  have later: "runTasks 0 recommending_env idle_options world0 = Some (Inr patch_result, recommended_world)"
    by (simp add: run_defs example_defs recommending_env_def recommended_world_def patch_result_def)
  have sooner: "runTasks 0 patch_env idle_options world0 = Some (Inr patch_result, patched_world)"
    by (simp add: run_defs example_defs patched_world_def patch_result_def)
  have modes: "version_isRecommendation recommending_env (opt_increment idle_options)"
    "version_isRecommendation patch_env (opt_increment idle_options) = False"
    by (simp_all add: example_defs recommending_env_def)
  have none: "events world0 = []"
    by (simp add: world0_def)
  from changelog_and_bump [OF later] changelog_and_bump [OF sooner] later sooner modes none
  show ?thesis
    by simp
qed

section \<open>Errors end the run\<close>

named_theorems guarded_intros

lemma step_error_none: "\<not> is_step ev \<Longrightarrow> step_error env h ev = None"
  by (cases ev) simp_all

lemma fail_fast_no_step: "list_all (\<lambda>ev. \<not> is_step ev) tr \<Longrightarrow> fail_fast env tail i h r tr"
  by (induction tr arbitrary: h) (simp_all add: step_error_none)

lemma aborts_extend: "aborts tail i ev e None post \<Longrightarrow> aborts tail i ev e r (post @ rest)"
  by (auto simp: aborts_def split: if_splits)

lemma fail_fast_append:
  assumes "fail_fast env tail i h None tr1" and "fail_fast env tail i (h @ tr1) r tr2"
  shows "fail_fast env tail i h r (tr1 @ tr2)"
  using assms
proof (induction tr1 arbitrary: h)
  case Nil
  then show ?case by simp
next
  case (Cons ev tr1)
  from Cons.prems have "fail_fast env tail i (h @ [ev]) r (tr1 @ tr2)"
    by (intro Cons.IH) simp_all
  with Cons.prems(1) show ?case
    by (auto simp: aborts_extend split: option.splits)
qed

lemma fail_fast_rejected:
  "step_error env h ev = Some e \<Longrightarrow> aborts tail i ev e r tr \<Longrightarrow> fail_fast env tail i (h @ [ev]) r tr
   \<Longrightarrow> fail_fast env tail i h r (ev # tr)"
  by simp

lemma fail_fast_split:
  assumes "fail_fast env tail i h r (pre @ ev # post)" and "step_error env (h @ pre) ev = Some e"
  shows "aborts tail i ev e r post"
  using assms
proof (induction pre arbitrary: h)
  case Nil
  then show ?case by simp
next
  case (Cons a pre)
  from Cons.prems have "fail_fast env tail i (h @ [a]) r (pre @ ev # post)"
    and "step_error env ((h @ [a]) @ pre) ev = Some e"
    by simp_all
  then show ?case
    by (rule Cons.IH)
qed

lemma guardedD:
  "guarded env i m \<Longrightarrow> m w = Some (r, w') \<Longrightarrow>
     \<exists>tr. events w' = events w @ tr \<and> fail_fast env (\<lambda>_. []) i (events w) (error_of r) tr"
  by (simp add: guarded_def)

lemma guarded_resolve [guarded_intros]: "guarded env i (resolve a)"
  by (simp add: guarded_def resolve_def)

lemma guarded_throw [guarded_intros]: "guarded env i (throw e)"
  by (simp add: guarded_def throw_def)

lemma guarded_none [guarded_intros]: "guarded env i (\<lambda>_. None)"
  by (simp add: guarded_def)

lemma guarded_emit [guarded_intros]: "\<not> is_step ev \<Longrightarrow> guarded env i (emit ev)"
  by (simp add: guarded_def emit_def step_error_none)

lemma guarded_update [guarded_intros]: "(\<And>w. events (g w) = events w) \<Longrightarrow> guarded env i (update g)"
  by (simp add: guarded_def update_def)

lemma guarded_reading [guarded_intros]: "(\<And>w0. guarded env i (f w0)) \<Longrightarrow> guarded env i (reading f)"
  by (simp add: guarded_def reading_def)

lemma guarded_invoke [guarded_intros]: "guarded env i (invoke env c)"
  by (auto simp: guarded_def invoke_def Let_def aborts_def raised_def error_of_def split: sum.splits)

lemma guarded_run [guarded_intros]: "guarded env i (run env s)"
  by (auto simp: guarded_def run_def Let_def aborts_def raised_def error_of_def split: option.splits)

lemma guarded_if [guarded_intros]:
  "(c \<Longrightarrow> guarded env i a) \<Longrightarrow> (\<not> c \<Longrightarrow> guarded env i b) \<Longrightarrow> guarded env i (if c then a else b)"
  by simp

lemma guarded_case_option [guarded_intros]:
  "(x = None \<Longrightarrow> guarded env i a) \<Longrightarrow> (\<And>y. x = Some y \<Longrightarrow> guarded env i (b y))
   \<Longrightarrow> guarded env i (case x of None \<Rightarrow> a | Some y \<Rightarrow> b y)"
  by (cases x) simp_all

lemma guarded_await [guarded_intros]:
  assumes m: "guarded env i m" and f: "\<And>a. guarded env i (f a)"
  shows "guarded env i (await m f)"
  unfolding guarded_def
proof (intro allI impI)
  fix w r w' assume "await m f w = Some (r, w')"
  then show "\<exists>tr. events w' = events w @ tr \<and> fail_fast env (\<lambda>_. []) i (events w) (error_of r) tr"
  proof (cases rule: await_cases)
    case (thrown e)
    from guardedD [OF m thrown(1)] thrown(2) show ?thesis
      by (simp add: error_of_def)
  next
    case (continued a w1)
    from guardedD [OF m continued(1)] obtain tr1 where tr1: "events w1 = events w @ tr1"
      "fail_fast env (\<lambda>_. []) i (events w) None tr1"
      by (auto simp: error_of_def)
    from guardedD [OF f continued(2)] obtain tr2 where tr2: "events w' = events w1 @ tr2"
      "fail_fast env (\<lambda>_. []) i (events w1) (error_of r) tr2"
      by blast
    from tr1 tr2 have "fail_fast env (\<lambda>_. []) i (events w) (error_of r) (tr1 @ tr2)"
      by (intro fail_fast_append) simp_all
    with tr1(1) tr2(1) show ?thesis
      by (intro exI [of _ "tr1 @ tr2"]) simp
  qed
qed

text \<open>The validation of the npm client: a probe that fails ends it, with the error of the client.\<close>

lemma guarded_validate: "guarded env i (validate env this)"
  by (auto simp: guarded_def validate_def isRegistryUp_def isAuthenticated_def shell_run_def
      catch_def await_def resolve_def throw_def Let_def aborts_def raised_def error_of_def
      is_publish_def
      split: option.splits if_splits)

text \<open>
  A publish with the callback of line 169, or with none: a command that is rejected ends
  it with the error, unless the user is asked for a one-time password.
\<close>

lemma guarded_publish_body:
  assumes cb: "arg_otpCallback args = otpCallback env sc"
    and self: "\<And>otp. guarded env (sc_isInteractive sc) (self (retry_args this args otp))"
  shows "guarded env (sc_isInteractive sc) (publish_body self env this args)"
  unfolding guarded_def
proof (intro allI impI)
  fix w r w'
  assume run: "publish_body self env this args w = Some (r, w')"
  let ?i = "sc_isInteractive sc"
  let ?cmd = "Shell_run (publish_command env this args)"
  show "\<exists>tr. events w' = events w @ tr \<and> fail_fast env (\<lambda>_. []) ?i (events w) (error_of r) tr"
  proof (cases "npm_private (npm_opts this)")
    case True
    with run show ?thesis
      by (auto simp: publish_skipped)
  next
    case public: False
    show ?thesis
    proof (cases "shell_result env (publish_command env this args) (events w)")
      case None
      with run public show ?thesis
        by (auto simp: publish_accepted)
    next
      case (Some err)
      let ?w1 = "after_rejection env this args err w"
      note eq = publish_rejected [OF public Some, of self]
      define ws where "ws = (if regex_test ''one-time pass'' (toString err) \<and> not_nullish (otp_param this args)
                             then [Log_warn ''The provided OTP is incorrect or has expired.''] else [])"
      have ws: "otp_warning ws"
        by (simp add: ws_def otp_warning_def)
      have w1: "events ?w1 = events w @ ?cmd # Debug err # ws"
        by (simp add: after_rejection_def ws_def)
      have quiet: "list_all (\<lambda>ev. \<not> is_step ev) (Debug err # ws)"
        using ws by (auto simp: otp_warning_def)
      have rejected: "step_error env (events w) ?cmd = Some err"
        using Some by simp
      have rethrown: ?thesis if "r = Inl err" and "w' = ?w1"
      proof -
        have "aborts (\<lambda>_. []) ?i ?cmd err (Some err) (Debug err # ws)"
          using ws by (auto simp: aborts_def is_publish_command)
        moreover have "fail_fast env (\<lambda>_. []) ?i (events w @ [?cmd]) (Some err) (Debug err # ws)"
          using quiet by (rule fail_fast_no_step)
        ultimately have "fail_fast env (\<lambda>_. []) ?i (events w) (Some err) (?cmd # Debug err # ws)"
          by (rule fail_fast_rejected [OF rejected])
        with that w1 show ?thesis
          by (simp add: error_of_def)
      qed
      show ?thesis
      proof (cases "regex_test ''one-time pass'' (toString err)")
        case False
        with run eq have "r = Inl err" and "w' = ?w1"
          by simp_all
        then show ?thesis
          by (rule rethrown)
      next
        case otp: True
        show ?thesis
        proof (cases rule: otpCallback_cases [of sc env])
          case unattended
          with run eq otp cb have "r = Inl err" and "w' = ?w1"
            by simp_all
          then show ?thesis
            by (rule rethrown)
        next
          case interactive
          let ?w2 = "?w1\<lparr>events := events ?w1 @ [Prompt (Val ''otp'')]\<rparr>"
          from run eq otp cb interactive(2)
          have "prompt_show env True (Val ''otp'') (\<lambda>otp. self (retry_args this args otp)) ?w1 = Some (r, w')"
            by simp
          then have asked: "case user_answer env (Val ''otp'') (events ?w2) of
                       None \<Rightarrow> r = Inr V_undefined \<and> w' = ?w2
                     | Some a \<Rightarrow> self (retry_args this args a) ?w2 = Some (r, w')"
            by (simp add: prompt_show_def await_def emit_def reading_def resolve_def split: option.splits)
          have "\<exists>tr. events w' = events ?w2 @ tr \<and>
                  fail_fast env (\<lambda>_. []) ?i (events ?w2) (error_of r) tr"
          proof (cases "user_answer env (Val ''otp'') (events ?w2)")
            case None
            with asked have "events w' = events ?w2 @ []"
              by simp
            then show ?thesis
              by (intro exI [of _ "[]"]) simp
          next
            case (Some a)
            with asked have "self (retry_args this args a) ?w2 = Some (r, w')"
              by simp
            then show ?thesis
              by (rule guardedD [OF self])
          qed
          then obtain tr where tr: "events w' = events ?w2 @ tr"
            "fail_fast env (\<lambda>_. []) ?i (events ?w2) (error_of r) tr"
            by blast
          let ?post = "(Debug err # ws @ [Prompt (Val ''otp'')]) @ tr"
          have w2: "events ?w2 = (events w @ [?cmd]) @ Debug err # ws @ [Prompt (Val ''otp'')]"
            using w1 by simp
          have "aborts (\<lambda>_. []) ?i ?cmd err (error_of r) ?post"
            using ws otp interactive(1) by (auto simp: aborts_def is_publish_command)
          moreover have "fail_fast env (\<lambda>_. []) ?i (events w @ [?cmd]) (error_of r) ?post"
          proof (rule fail_fast_append)
            show "fail_fast env (\<lambda>_. []) ?i (events w @ [?cmd]) None (Debug err # ws @ [Prompt (Val ''otp'')])"
              using quiet by (intro fail_fast_no_step) simp
            show "fail_fast env (\<lambda>_. []) ?i ((events w @ [?cmd]) @ Debug err # ws @ [Prompt (Val ''otp'')])
                    (error_of r) tr"
              using tr(2) w2 by simp
          qed
          ultimately have "fail_fast env (\<lambda>_. []) ?i (events w) (error_of r) (?cmd # ?post)"
            by (rule fail_fast_rejected [OF rejected])
          moreover have "events w' = events w @ ?cmd # ?post"
            using tr(1) w2 by simp
          ultimately show ?thesis
            by blast
        qed
      qed
    qed
  qed
qed

lemma guarded_publish:
  assumes "arg_otpCallback args = otpCallback env sc"
  shows "guarded env (sc_isInteractive sc) (publish n env this args)"
  using assms
proof (induction n arbitrary: args)
  case 0
  then show ?case
    unfolding publish.simps by (intro guarded_publish_body guarded_none)
next
  case (Suc n)
  have "\<And>otp. arg_otpCallback (retry_args this args otp) = otpCallback env sc"
    using Suc.prems by (simp add: retry_args_def)
  then show ?case
    unfolding publish.simps using Suc.prems by (intro guarded_publish_body Suc.IH)
qed

lemmas guarded_defs = log_warn_def log_log_def log_error_def debug_def run_if_def
  spinner_show_def hook_def prompt_show_def step_def logPreview_def shell_pushd_def shell_popd_def
  ghClient_release_def glClient_release_def v_setLatestVersion_def v_bump_def setRuntimeOptions_details_def
  start_def validate_clients_def resolve_version_def generateAndPreviewChangelog_def
  changelog_before_bump_def prompt_for_version_def validate_version_def register_reset_def bump_def
  changelog_after_bump_def stage_def release_git_def release_github_def github_steps_def
  release_gitlab_def release_wrap_up_def finish_def

lemma guarded_release_npm:
  "guarded env (sc_isInteractive sc) (release_npm fuel env sc cs)"
proof -
  have "guarded env (sc_isInteractive sc) (publish fuel env (cs_npmClient cs)
      \<lparr>arg_tag = Undefined, arg_version = sc_version sc, arg_isPreRelease = sc_isPreRelease sc,
       arg_otp = Undefined, arg_otpCallback = otpCallback env sc\<rparr>)"
    by (rule guarded_publish) simp
  then show ?thesis
    unfolding release_npm_def guarded_defs Let_def
    by (intro guarded_intros) simp_all
qed

lemma guarded_release:
  assumes "sc_isInteractive sc = i"
  shows "guarded env i (release fuel env sc cs)"
  unfolding release_def guarded_defs Let_def assms [symmetric]
  by (intro guarded_intros guarded_release_npm; simp)+

lemma guarded_release_distribution:
  assumes "sc_isInteractive sc = i"
  shows "guarded env i (release_distribution fuel env sc opts)"
  unfolding release_distribution_def guarded_defs Let_def
  by (intro guarded_intros guarded_release assms; simp)+

lemma guarded_phases:
  "guarded env i (start env opts)"
  "guarded env i (validate_clients env opts)"
  "guarded env i (resolve_version env opts)"
  "guarded env i (changelog_before_bump env opts)"
  "guarded env i (prompt_for_version env opts)"
  "guarded env i (validate_version env)"
  "guarded env i (register_reset opts)"
  "guarded env i (bump env opts)"
  "guarded env i (changelog_after_bump env opts c)"
  "guarded env i (stage env opts)"
  "guarded env i (finish env opts c l v)"
  unfolding guarded_defs Let_def
  by (intro guarded_intros guarded_validate; simp)+

lemma guarded_try: "guarded env (opt_isInteractive opts) (runTasks_try fuel env opts)"
  unfolding runTasks_try_def after_validation_def perform_def Let_def
  by (intro guarded_await guarded_phases guarded_release guarded_release_distribution; simp)+

text \<open>The handler at the top comes after all that.\<close>

lemma no_step_handler_trace: "list_all (\<lambda>ev. \<not> is_step ev) (handler_trace e)"
  by (simp add: handler_trace_def)

lemma aborts_handled:
  "aborts (\<lambda>_. []) i ev e0 (Some e) post \<Longrightarrow> aborts handler_trace i ev e0 (Some e) (post @ handler_trace e)"
  by (auto simp: aborts_def split: if_splits)

lemma fail_fast_handled:
  assumes "fail_fast env (\<lambda>_. []) i h (Some e) tr"
  shows "fail_fast env handler_trace i h (Some e) (tr @ handler_trace e)"
  using assms
proof (induction tr arbitrary: h)
  case Nil
  show ?case
    by (simp add: fail_fast_no_step no_step_handler_trace)
next
  case (Cons ev tr)
  then show ?case
    by (auto simp: aborts_handled split: option.splits)
qed

lemma fail_fast_resolved:
  assumes "fail_fast env (\<lambda>_. []) i h None tr"
  shows "fail_fast env tail i h None tr"
  using assms
proof (induction tr arbitrary: h)
  case Nil
  show ?case by simp
next
  case (Cons ev tr)
  then show ?case
    by (auto simp: aborts_def split: option.splits if_splits)
qed

lemma fail_fast_runTasks:
  assumes "runTasks fuel env opts w = Some (r, w')"
  shows "\<exists>tr. events w' = events w @ tr \<and>
           fail_fast env handler_trace (opt_isInteractive opts) (events w) (error_of r) tr"
  using assms unfolding runTasks_def
proof (cases rule: catch_cases)
  case (caught e w1)
  from caught(2) have r: "r = Inl e" and w': "events w' = events w1 @ handler_trace e"
    by (auto simp: handle_error_trace)
  from guardedD [OF guarded_try caught(1)] obtain tr where tr: "events w1 = events w @ tr"
    "fail_fast env (\<lambda>_. []) (opt_isInteractive opts) (events w) (Some e) tr"
    by (auto simp: error_of_def)
  from fail_fast_handled [OF tr(2)] r w' tr(1) show ?thesis
    by (intro exI [of _ "tr @ handler_trace e"]) (simp add: error_of_def)
next
  case (passed a)
  from guardedD [OF guarded_try passed(1)] obtain tr where tr: "events w' = events w @ tr"
    "fail_fast env (\<lambda>_. []) (opt_isInteractive opts) (events w) None tr"
    by (auto simp: error_of_def)
  from fail_fast_resolved [OF tr(2)] passed(2) tr(1) show ?thesis
    by (intro exI [of _ tr]) (simp add: error_of_def)
qed

text \<open>
  C9, as the code has it.  In every run, a step that is rejected is the last step of the
  run: what is thrown for it is the error with which the run is rejected, and after it
  comes only the handler at the top.  The handler reports the error, logs it (the message
  of a \<open>ReleaseItError\<close> with \<open>log.error\<close>, any other error as it is) and throws the
  same error again; the run resolves only when the block under \<open>try\<close> has resolved.
  The npm client handles the rejections of its own commands: for a probe of the registry
  that fails it throws an error of its own, and a publish command that is rejected for
  the one-time password in interactive mode is followed by the prompt for a password, so
  that a run that resolves may hold such a command, and no other rejected step.
\<close>

theorem errors_are_rethrown:
  assumes "runTasks fuel env opts w = Some (r, w')"
  shows "events w' = events w @ added w w'
       \<and> (\<forall>pre ev post e.
            added w w' = pre @ ev # post \<and> step_error env (events w @ pre) ev = Some e \<longrightarrow>
            aborts handler_trace (opt_isInteractive opts) ev e (error_of r) post)
       \<and> (\<forall>pre ev post e res.
            added w w' = pre @ ev # post \<and> step_error env (events w @ pre) ev = Some e \<and> r = Inr res \<longrightarrow>
            is_publish_event ev \<and> opt_isInteractive opts \<and> regex_test ''one-time pass'' (toString e))
       \<and> (case r of
            Inl err \<Rightarrow>
              (\<exists>w1. runTasks_try fuel env opts w = Some (Inl err, w1) \<and>
                 w' = w1\<lparr>events := events w1 @ Metrics_exception err #
                        (if instanceof_ReleaseItError err
                         then [Log_error (if message err \<noteq> [] then message err else toString err), Debug err]
                         else [Console_error err])\<rparr>)
          | Inr res \<Rightarrow> runTasks_try fuel env opts w = Some (Inr res, w'))"
proof -
  from fail_fast_runTasks [OF assms] obtain tr where tr: "events w' = events w @ tr"
    "fail_fast env handler_trace (opt_isInteractive opts) (events w) (error_of r) tr"
    by blast
  from tr(1) have added: "added w w' = tr"
    by (simp add: added_def)
  have split: "aborts handler_trace (opt_isInteractive opts) ev e (error_of r) post"
    if "added w w' = pre @ ev # post" and "step_error env (events w @ pre) ev = Some e"
    for pre ev post e
    using tr(2) that unfolding added by (auto intro: fail_fast_split)
  have resolved: "is_publish_event ev \<and> opt_isInteractive opts \<and> regex_test ''one-time pass'' (toString e)"
    if "added w w' = pre @ ev # post" and "step_error env (events w @ pre) ev = Some e" and "r = Inr res"
    for pre ev post e res
    using split [OF that(1,2)] that(3) by (auto simp: aborts_def error_of_def split: if_splits)
  have handler: "case r of
            Inl err \<Rightarrow>
              (\<exists>w1. runTasks_try fuel env opts w = Some (Inl err, w1) \<and>
                 w' = w1\<lparr>events := events w1 @ Metrics_exception err #
                        (if instanceof_ReleaseItError err
                         then [Log_error (if message err \<noteq> [] then message err else toString err), Debug err]
                         else [Console_error err])\<rparr>)
          | Inr res \<Rightarrow> runTasks_try fuel env opts w = Some (Inr res, w')"
    using assms unfolding runTasks_def
    by (cases rule: catch_cases) (auto simp: handle_error_run)
  from tr(1) added split resolved handler show ?thesis
    by blast
qed

theorem errors_are_rethrown_witness:
  "runTasks 0 broken_env idle_options world0 =
     Some (Inl new_GitCleanWorkingDirError,
           world0\<lparr>events := [Call HandleDeprecated, Metrics_event ''start'', Call Git_validate]
                              @ handler_trace new_GitCleanWorkingDirError\<rparr>) \<and>
   step_error broken_env [Call HandleDeprecated, Metrics_event ''start''] (Call Git_validate)
     = Some new_GitCleanWorkingDirError \<and>
   aborts handler_trace (opt_isInteractive idle_options) (Call Git_validate) new_GitCleanWorkingDirError
     (Some new_GitCleanWorkingDirError) (handler_trace new_GitCleanWorkingDirError)"
proof -
  let ?w = "world0\<lparr>events := [Call HandleDeprecated, Metrics_event ''start'', Call Git_validate]
                              @ handler_trace new_GitCleanWorkingDirError\<rparr>"
  have run: "runTasks 0 broken_env idle_options world0 = Some (Inl new_GitCleanWorkingDirError, ?w)"
    by (simp add: run_defs example_defs broken_env_def handler_trace_def new_GitCleanWorkingDirError_def)
  have added: "added world0 ?w = [Call HandleDeprecated, Metrics_event ''start''] @ Call Git_validate
                 # handler_trace new_GitCleanWorkingDirError"
    by (simp add: added_def world0_def)
  have rejected: "step_error broken_env (events world0 @ [Call HandleDeprecated, Metrics_event ''start''])
                    (Call Git_validate) = Some new_GitCleanWorkingDirError"
    by (simp add: broken_env_def world0_def)
  from errors_are_rethrown [OF run, THEN conjunct2, THEN conjunct1, rule_format, OF conjI, OF added rejected]
    run rejected
  show ?thesis
    by (simp add: error_of_def world0_def)
qed

text \<open>
  C9, as it is stated, fails.  In an interactive run the first publish command is rejected
  for the one-time password, the user types one, and the run resolves with its result.
  In a run in which the probe of the registry fails, the error of the probe is not the
  error that is thrown again.
\<close>

theorem errors_are_rethrown_counterexample:
  "runTasks (Suc 0) asking_env interactive_options world0 = Some (Inr patch_result, asked_world) \<and>
   events asked_world = before_publish @ Shell_run ''npm publish . --tag latest   '' # after_publish \<and>
   step_error asking_env before_publish (Shell_run ''npm publish . --tag latest   '') = Some otp_error \<and>
   runTasks 0 offline_env interactive_options world0
     = Some (Inl (new_npmTimeoutError REGISTRY_TIMEOUT), offline_world) \<and>
   events offline_world = before_ping @ Shell_run ''npm ping''
     # handler_trace (new_npmTimeoutError REGISTRY_TIMEOUT) \<and>
   step_error offline_env before_ping (Shell_run ''npm ping'') = Some ping_error \<and>
   ping_error \<noteq> new_npmTimeoutError REGISTRY_TIMEOUT"
proof -
  have "runTasks (Suc 0) asking_env interactive_options world0 = Some (Inr patch_result, asked_world)"
    by (simp add: run_defs example_defs asking_env_def interactive_options_def publishing_clients_def
        public_client_def asked_world_def before_publish_def after_publish_def patch_result_def
        otp_error_def is_publish_def NPM_BASE_URL_def getPackageUrl_def DEFAULT_TAG_def
        retry_args_def error_toString_def)
  moreover have "runTasks 0 offline_env interactive_options world0
     = Some (Inl (new_npmTimeoutError REGISTRY_TIMEOUT), offline_world)"
    by (simp add: run_defs example_defs offline_env_def interactive_options_def publishing_clients_def
        public_client_def offline_world_def before_ping_def handler_trace_def ping_error_def
        new_npmTimeoutError_def REGISTRY_TIMEOUT_def)
  moreover have "step_error asking_env before_publish (Shell_run ''npm publish . --tag latest   '') = Some otp_error"
    by (simp add: asking_env_def before_publish_def is_publish_def)
  moreover have "step_error offline_env before_ping (Shell_run ''npm ping'') = Some ping_error"
    by (simp add: offline_env_def)
  moreover have "ping_error \<noteq> new_npmTimeoutError REGISTRY_TIMEOUT"
    by (simp add: ping_error_def new_npmTimeoutError_def)
  ultimately show ?thesis
    by (simp add: asked_world_def offline_world_def)
qed

end
